theory Spec2Isabelle
  imports Complex_Main
begin

section \<open>Data model\<close>

text \<open>
  The scripts handle decoded JSON objects. A key that the code reads with
  \<^verbatim>\<open>d.get(key, default)\<close> is an optional field: \<open>None\<close> is the absent key.
  Nested objects read with \<^verbatim>\<open>d.get(key, {})\<close> are optional records; an absent
  object and an empty one give the same defaults. Python strings are modelled
  as \<open>string\<close>, one \<open>char\<close> per character.
\<close>

record settings =
  subject_line :: "string option"
  preview_text :: "string option"

record recipients =
  list_id :: "string option"
  segment_opts :: bool \<comment> \<open>truth value of \<^verbatim>\<open>recipients.get('segment_opts')\<close>\<close>

record campaign =
  cid :: "string option" \<comment> \<open>key \<^verbatim>\<open>id\<close>\<close>
  settings :: "settings option"
  send_time :: "string option"
  recipients :: "recipients option"

text \<open>
  Rates are JSON numbers that the scripts only multiply by 100 and format, in
  floating point; their type is left open as \<open>'r\<close>.
\<close>

record 'r opens =
  unique_opens :: "int option"
  open_rate :: "'r option"

record 'r clicks =
  unique_clicks :: "int option"
  click_rate :: "'r option"

record bounces =
  hard_bounces :: "int option"
  soft_bounces :: "int option"

record 'r report =
  emails_sent :: "int option"
  opens :: "'r opens option"
  clicks :: "'r clicks option"
  bounces :: "bounces option"
  unsubscribed :: "int option"

text \<open>A value stored in a row dictionary: a string or a JSON integer.\<close>

datatype cell = Str string | Num int

type_synonym row = "(string \<times> cell) list"

type_synonym csv_file = "cell list list"

section \<open>The remote API and the observable effects\<close>

text \<open>
  One call of \<^verbatim>\<open>requests.get\<close> / \<^verbatim>\<open>session.get\<close> followed by the decoding of its
  body ends in one of three ways: a response with a status code and a decoded
  body (the body is only looked at when the status is 200), the exception
  \<^verbatim>\<open>requests.exceptions.Timeout\<close>, or any other exception. Such a call is one
  request of the model; what the \<^verbatim>\<open>requests\<close> library does inside it (the retry
  adapter that the robust script mounts on its session) is not modelled.
\<close>

datatype 'a reply = Reply nat 'a | Timeout | Failure

datatype request = GetCampaigns nat nat | GetReport string | GetList string

datatype event = Request request | Sleep rat

text \<open>
  The remote API is a collaborator: for the \<open>n\<close>-th request of a run it fixes
  what each possible request would be answered. The listing endpoint takes
  \<^verbatim>\<open>count\<close> and \<^verbatim>\<open>offset\<close>; its body is the value under the key \<^verbatim>\<open>campaigns\<close>,
  if present. The body of the list endpoint is the value under \<^verbatim>\<open>name\<close>.
\<close>

record 'r remote =
  campaigns_ep :: "nat \<Rightarrow> nat \<Rightarrow> nat \<Rightarrow> campaign list option reply"
  reports_ep :: "nat \<Rightarrow> string \<Rightarrow> 'r report reply"
  lists_ep :: "nat \<Rightarrow> string \<Rightarrow> string option reply"

text \<open>
  The effects of a run on the outside: the number of requests issued so far
  and the requests and sleeps in the order they happened.
\<close>

record world =
  clock :: nat
  trace :: "event list"

definition issue :: "request \<Rightarrow> world \<Rightarrow> world" where
  "issue r w = w\<lparr>clock := Suc (clock w), trace := trace w @ [Request r]\<rparr>"

definition sleep :: "rat \<Rightarrow> world \<Rightarrow> world" where
  "sleep d w = w\<lparr>trace := trace w @ [Sleep d]\<rparr>"

datatype error = ZeroDivisionError | TimeoutError | RequestError

section \<open>Filename sanitization\<close>

text \<open>
  \<^verbatim>\<open>re.sub(r'[<>:"/\\|?*]', '', filename)\<close>, then
  \<^verbatim>\<open>filename.replace(' ', '_')\<close>, then the cut at 200 characters. The three
  scripts define the same function.
\<close>

definition illegal_chars :: "char list" where
  "illegal_chars =
     [CHR ''<'', CHR ''>'', CHR '':'', CHR 0x22, CHR ''/'', CHR 0x5C, CHR ''|'',
      CHR ''?'', CHR ''*'']"

definition re_sub_illegal :: "string \<Rightarrow> string" where
  "re_sub_illegal filename = filter (\<lambda>c. c \<notin> set illegal_chars) filename"

definition replace_spaces :: "string \<Rightarrow> string" where
  "replace_spaces filename = map (\<lambda>c. if c = CHR '' '' then CHR ''_'' else c) filename"

definition sanitize_filename :: "string \<Rightarrow> string" where
  "sanitize_filename filename =
     (let filename = re_sub_illegal filename;
          filename = replace_spaces filename
      in if length filename > 200 then take 200 filename else filename)"

section \<open>Paginated listing fetch\<close>

definition dict_get :: "'a option \<Rightarrow> 'a \<Rightarrow> 'a" where
  "dict_get v d = (case v of None \<Rightarrow> d | Some x \<Rightarrow> x)"

text \<open>
  The \<^verbatim>\<open>while True\<close> loop of \<^verbatim>\<open>get_all_campaigns\<close> in the robust script, with the
  local variables \<^verbatim>\<open>campaigns\<close> and \<^verbatim>\<open>offset\<close> as arguments. The loop may run
  forever; \<open>None\<close> is the run that never leaves it.
\<close>

partial_function (option) robust_campaigns_loop ::
  "'r remote \<Rightarrow> nat \<Rightarrow> campaign list \<Rightarrow> nat \<Rightarrow> world \<Rightarrow> (campaign list \<times> world) option"
where
  "robust_campaigns_loop api count campaigns offset w =
     (let w' = issue (GetCampaigns count offset) w in
      case campaigns_ep api (clock w) count offset of
        Reply status body \<Rightarrow>
          if status \<noteq> 200 then Some (campaigns, w')
          else let batch_campaigns = dict_get body [] in
            if batch_campaigns = [] then Some (campaigns, w')
            else if length batch_campaigns < count then Some (campaigns @ batch_campaigns, w')
            else robust_campaigns_loop api count (campaigns @ batch_campaigns) (offset + count) w'
      | Timeout \<Rightarrow> robust_campaigns_loop api count campaigns offset (sleep 2 w')
      | Failure \<Rightarrow> Some (campaigns, w'))"

declare robust_campaigns_loop.simps [code]

definition robust_get_all_campaigns ::
  "'r remote \<Rightarrow> world \<Rightarrow> (campaign list \<times> world) option" where
  "robust_get_all_campaigns api w = robust_campaigns_loop api 1000 [] 0 w"

text \<open>
  The basic script has the same loop without \<^verbatim>\<open>try\<close>: an exception of the
  request leaves \<^verbatim>\<open>get_all_campaigns\<close> and reaches the caller.
\<close>

partial_function (option) basic_campaigns_loop ::
  "'r remote \<Rightarrow> nat \<Rightarrow> campaign list \<Rightarrow> nat \<Rightarrow> world
     \<Rightarrow> ((error + campaign list) \<times> world) option"
where
  "basic_campaigns_loop api count campaigns offset w =
     (let w' = issue (GetCampaigns count offset) w in
      case campaigns_ep api (clock w) count offset of
        Reply status body \<Rightarrow>
          if status \<noteq> 200 then Some (Inr campaigns, w')
          else let batch_campaigns = dict_get body [] in
            if batch_campaigns = [] then Some (Inr campaigns, w')
            else if length batch_campaigns < count then Some (Inr (campaigns @ batch_campaigns), w')
            else basic_campaigns_loop api count (campaigns @ batch_campaigns) (offset + count) w'
      | Timeout \<Rightarrow> Some (Inl TimeoutError, w')
      | Failure \<Rightarrow> Some (Inl RequestError, w'))"

declare basic_campaigns_loop.simps [code]

definition basic_get_all_campaigns ::
  "'r remote \<Rightarrow> world \<Rightarrow> ((error + campaign list) \<times> world) option" where
  "basic_get_all_campaigns api w = basic_campaigns_loop api 1000 [] 0 w"

text \<open>
  A remote API that holds the campaigns \<open>cs\<close> and answers every listing request
  with status 200 and the page of at most \<^verbatim>\<open>count\<close> campaigns at \<^verbatim>\<open>offset\<close>.
\<close>

definition holding :: "campaign list \<Rightarrow> 'r remote \<Rightarrow> 'r remote" where
  "holding cs api =
     api\<lparr>campaigns_ep := \<lambda>n count offset. Reply 200 (Some (take count (drop offset cs)))\<rparr>"

section \<open>Per-item fetches\<close>

text \<open>
  \<^verbatim>\<open>for attempt in range(3)\<close> of the robust script is a recursion over the list
  of attempt numbers; the equation for the empty list is the \<^verbatim>\<open>return\<close> after
  the loop.
\<close>

fun report_attempts ::
  "'r remote \<Rightarrow> string \<Rightarrow> nat list \<Rightarrow> world \<Rightarrow> 'r report option \<times> world" where
  "report_attempts api campaign_id [] w = (None, w)"
| "report_attempts api campaign_id (attempt # rest) w =
     (let w' = issue (GetReport campaign_id) w in
      case reports_ep api (clock w) campaign_id of
        Reply status body \<Rightarrow>
          if status = 200 then (Some body, w')
          else if status = 404 then (None, w')
          else (None, w')
      | Timeout \<Rightarrow>
          if attempt < 2 then report_attempts api campaign_id rest (sleep 2 w')
          else (None, w')
      | Failure \<Rightarrow> (None, w'))"

definition robust_get_campaign_report ::
  "'r remote \<Rightarrow> string \<Rightarrow> world \<Rightarrow> 'r report option \<times> world" where
  "robust_get_campaign_report api campaign_id w = report_attempts api campaign_id [0..<3] w"

fun list_name_attempts ::
  "'r remote \<Rightarrow> string \<Rightarrow> nat list \<Rightarrow> world \<Rightarrow> string \<times> world" where
  "list_name_attempts api lid [] w = (''Unknown'', w)"
| "list_name_attempts api lid (attempt # rest) w =
     (let w' = issue (GetList lid) w in
      case lists_ep api (clock w) lid of
        Reply status body \<Rightarrow>
          if status = 200 then (dict_get body ''Unknown'', w')
          else (''Unknown'', w')
      | Timeout \<Rightarrow>
          if attempt < 2 then list_name_attempts api lid rest (sleep 2 w')
          else (''Unknown'', w')
      | Failure \<Rightarrow> (''Unknown'', w'))"

definition robust_get_list_name :: "'r remote \<Rightarrow> string \<Rightarrow> world \<Rightarrow> string \<times> world" where
  "robust_get_list_name api lid w = list_name_attempts api lid [0..<3] w"

text \<open>The basic script issues one request and lets its exceptions through.\<close>

definition basic_get_campaign_report ::
  "'r remote \<Rightarrow> string \<Rightarrow> world \<Rightarrow> (error + 'r report option) \<times> world" where
  "basic_get_campaign_report api campaign_id w =
     (let w' = issue (GetReport campaign_id) w in
      case reports_ep api (clock w) campaign_id of
        Reply status body \<Rightarrow> if status = 200 then (Inr (Some body), w') else (Inr None, w')
      | Timeout \<Rightarrow> (Inl TimeoutError, w')
      | Failure \<Rightarrow> (Inl RequestError, w'))"

definition basic_get_list_name ::
  "'r remote \<Rightarrow> string \<Rightarrow> world \<Rightarrow> (error + string) \<times> world" where
  "basic_get_list_name api lid w =
     (let w' = issue (GetList lid) w in
      case lists_ep api (clock w) lid of
        Reply status body \<Rightarrow>
          if status = 200 then (Inr (dict_get body ''Unknown''), w') else (Inr ''Unknown'', w')
      | Timeout \<Rightarrow> (Inl TimeoutError, w')
      | Failure \<Rightarrow> (Inl RequestError, w'))"

section \<open>Rows\<close>

text \<open>
  What the scripts take from the standard library and the file system:
  \<^verbatim>\<open>datetime.strptime(s, '%Y-%m-%dT%H:%M:%S%z')\<close> (\<open>None\<close> when it raises) and the
  two \<^verbatim>\<open>strftime\<close> formats, the formatting \<^verbatim>\<open>f"{x * 100:.2f}"\<close> of a rate, and
  \<^verbatim>\<open>Path.exists\<close>, \<^verbatim>\<open>/\<close> and \<^verbatim>\<open>Path.absolute\<close>. The Markdown files that
  \<^verbatim>\<open>find_local_file\<close> looks for are not written by these two scripts, so
  \<open>path_exists\<close> is fixed for a run.
\<close>

record ('r, 'dt) host =
  strptime :: "string \<Rightarrow> 'dt option"
  strftime_date :: "'dt \<Rightarrow> string"
  strftime_datetime :: "'dt \<Rightarrow> string"
  format_pct :: "'r \<Rightarrow> string"
  path_exists :: "string \<Rightarrow> bool"
  path_join :: "string \<Rightarrow> string \<Rightarrow> string"
  path_absolute :: "string \<Rightarrow> string"

definition subject_of :: "campaign \<Rightarrow> string" where
  "subject_of campaign =
     (case settings campaign of None \<Rightarrow> ''No Subject''
      | Some s \<Rightarrow> dict_get (subject_line s) ''No Subject'')"

definition find_local_file :: "('r, 'dt) host \<Rightarrow> campaign \<Rightarrow> string \<Rightarrow> string" where
  "find_local_file h campaign newsletters_dir =
     (let sent = dict_get (send_time campaign) [];
          subject = subject_of campaign;
          date_str =
            (if sent \<noteq> [] then
               (case strptime h sent of
                  Some dt \<Rightarrow> strftime_date h dt
                | None \<Rightarrow> if length sent \<ge> 10 then take 10 sent else ''unknown'')
             else ''unknown'');
          filename = date_str @ ''_'' @ sanitize_filename subject @ ''.md'';
          filepath = path_join h newsletters_dir filename
      in if path_exists h filepath then path_absolute h filepath else ''File not found'')"

definition fieldnames :: "string list" where
  "fieldnames =
     [''Campaign ID'', ''Subject Line'', ''Preheader'', ''Audience/List'', ''Send Date'',
      ''Emails Sent'', ''Unique Opens'', ''Open Rate (%)'', ''Unique Clicks'',
      ''Click Rate (%)'', ''Hard Bounces'', ''Soft Bounces'', ''Unsubscribes'',
      ''Local File Path'']"

text \<open>
  A rate that is absent is the integer 0, and \<^verbatim>\<open>f"{0:.2f}"\<close> is \<^verbatim>\<open>0.00\<close>.
\<close>

definition rate_cell :: "('r, 'dt) host \<Rightarrow> 'r option \<Rightarrow> cell" where
  "rate_cell h rate = (case rate of None \<Rightarrow> Str ''0.00'' | Some x \<Rightarrow> Str (format_pct h x))"

definition count_cell :: "int option \<Rightarrow> cell" where
  "count_cell n = Num (dict_get n 0)"

text \<open>
  The part of the loop body of \<^verbatim>\<open>generate_csv\<close> that builds the row dictionary,
  the same text in both scripts. \<open>audience\<close> is the audience name already
  resolved, \<open>report\<close> the result of \<^verbatim>\<open>get_campaign_report\<close>. A report that is an
  empty object takes the \<^verbatim>\<open>else\<close> branch of \<^verbatim>\<open>if report\<close>, with the values that
  the defaults of the first branch give.
\<close>

definition build_row ::
  "('r, 'dt) host \<Rightarrow> string option \<Rightarrow> campaign \<Rightarrow> string \<Rightarrow> 'r report option \<Rightarrow> row" where
  "build_row h newsletters_path campaign audience report =
     (let campaign_id = dict_get (cid campaign) ''N/A'';
          subject = subject_of campaign;
          preheader = (case settings campaign of None \<Rightarrow> []
                       | Some s \<Rightarrow> dict_get (preview_text s) []);
          sent = dict_get (send_time campaign) [];
          formatted_date =
            (if sent \<noteq> [] then
               (case strptime h sent of Some dt \<Rightarrow> strftime_datetime h dt | None \<Rightarrow> sent)
             else ''Unknown'');
          segmented = (case recipients campaign of None \<Rightarrow> False | Some r \<Rightarrow> segment_opts r);
          audience = (if segmented then audience @ '' (Segmented)'' else audience);
          local_file =
            (case newsletters_path of
               Some d \<Rightarrow> find_local_file h campaign d
             | None \<Rightarrow> ''Directory not found'')
      in case report of
           Some r \<Rightarrow>
             [(''Campaign ID'', Str campaign_id),
              (''Subject Line'', Str subject),
              (''Preheader'', Str preheader),
              (''Audience/List'', Str audience),
              (''Send Date'', Str formatted_date),
              (''Emails Sent'', count_cell (emails_sent r)),
              (''Unique Opens'', count_cell (case opens r of None \<Rightarrow> None | Some x \<Rightarrow> unique_opens x)),
              (''Open Rate (%)'', rate_cell h (case opens r of None \<Rightarrow> None | Some x \<Rightarrow> open_rate x)),
              (''Unique Clicks'', count_cell (case clicks r of None \<Rightarrow> None | Some x \<Rightarrow> unique_clicks x)),
              (''Click Rate (%)'', rate_cell h (case clicks r of None \<Rightarrow> None | Some x \<Rightarrow> click_rate x)),
              (''Hard Bounces'', count_cell (case bounces r of None \<Rightarrow> None | Some x \<Rightarrow> hard_bounces x)),
              (''Soft Bounces'', count_cell (case bounces r of None \<Rightarrow> None | Some x \<Rightarrow> soft_bounces x)),
              (''Unsubscribes'', count_cell (unsubscribed r)),
              (''Local File Path'', Str local_file)]
         | None \<Rightarrow>
             [(''Campaign ID'', Str campaign_id),
              (''Subject Line'', Str subject),
              (''Preheader'', Str preheader),
              (''Audience/List'', Str audience),
              (''Send Date'', Str formatted_date),
              (''Emails Sent'', Num 0),
              (''Unique Opens'', Num 0),
              (''Open Rate (%)'', rate_cell h None),
              (''Unique Clicks'', Num 0),
              (''Click Rate (%)'', rate_cell h None),
              (''Hard Bounces'', Num 0),
              (''Soft Bounces'', Num 0),
              (''Unsubscribes'', Num 0),
              (''Local File Path'', Str local_file)])"

section \<open>Writing the CSV file\<close>

text \<open>
  \<^verbatim>\<open>csv.DictWriter(csvfile, fieldnames)\<close>: the header line, then for each row
  dictionary its values in the order of \<^verbatim>\<open>fieldnames\<close>. The file is opened with
  mode \<^verbatim>\<open>'w'\<close>, so what it held is gone.
\<close>

definition writerow :: "string list \<Rightarrow> row \<Rightarrow> cell list" where
  "writerow names r = map (\<lambda>k. dict_get (map_of r k) (Str [])) names"

definition write_csv :: "row list \<Rightarrow> string list \<Rightarrow> csv_file" where
  "write_csv rows names = map Str names # map (writerow names) rows"

text \<open>
  The state of one run of \<^verbatim>\<open>generate_csv\<close>: the outside world, the local
  variables \<^verbatim>\<open>list_cache\<close> and \<^verbatim>\<open>csv_data\<close>, and the contents of the output file
  (\<open>None\<close>: no such file).
\<close>

record run_state =
  net :: world
  list_cache :: "string \<rightharpoonup> string"
  csv_data :: "row list"
  disk :: "csv_file option"

definition save_progress :: "row list \<Rightarrow> string list \<Rightarrow> run_state \<Rightarrow> run_state" where
  "save_progress rows names st = st\<lparr>disk := Some (write_csv rows names)\<rparr>"

section \<open>The run loop of the robust script\<close>

text \<open>
  The audience lookup of the loop body. An absent or empty \<^verbatim>\<open>list_id\<close> is
  false in \<^verbatim>\<open>if list_id\<close>; otherwise the cache is asked first and filled on a
  miss with whatever \<^verbatim>\<open>get_list_name\<close> returns.
\<close>

definition list_id_of :: "campaign \<Rightarrow> string" where
  "list_id_of campaign =
     (case recipients campaign of None \<Rightarrow> [] | Some r \<Rightarrow> dict_get (list_id r) [])"

definition robust_audience :: "'r remote \<Rightarrow> campaign \<Rightarrow> run_state \<Rightarrow> string \<times> run_state" where
  "robust_audience api campaign st =
     (let lid = list_id_of campaign in
      if lid \<noteq> [] then
        (case list_cache st lid of
           None \<Rightarrow>
             (let (name, w) = robust_get_list_name api lid (net st)
              in (name, st\<lparr>net := w, list_cache := (list_cache st)(lid \<mapsto> name)\<rparr>))
         | Some name \<Rightarrow> (name, st))
      else (''Unknown'', st))"

text \<open>
  One pass of \<^verbatim>\<open>for i, campaign in enumerate(campaigns, 1)\<close>. The test
  \<^verbatim>\<open>i % save_interval == 0\<close> raises \<^verbatim>\<open>ZeroDivisionError\<close> when \<^verbatim>\<open>save_interval\<close> is
  0; nothing in \<^verbatim>\<open>generate_csv\<close> catches it.
\<close>

definition robust_process ::
  "('r, 'dt) host \<Rightarrow> 'r remote \<Rightarrow> string option \<Rightarrow> int \<Rightarrow> nat \<Rightarrow> campaign \<Rightarrow> run_state
     \<Rightarrow> (error + unit) \<times> run_state" where
  "robust_process h api newsletters_path save_interval i campaign st =
     (let (audience, st) = robust_audience api campaign st;
          (report, w) = robust_get_campaign_report api (dict_get (cid campaign) ''N/A'') (net st);
          st = st\<lparr>net := w\<rparr>;
          row = build_row h newsletters_path campaign audience report;
          st = st\<lparr>csv_data := csv_data st @ [row]\<rparr>
      in if save_interval = 0 then (Inl ZeroDivisionError, st)
         else
           (let st = (if int i mod save_interval = 0
                      then save_progress (csv_data st) fieldnames st else st);
                st = (if i mod 10 = 0 then st\<lparr>net := sleep (1 / 2) (net st)\<rparr> else st)
            in (Inr (), st)))"

fun robust_rows ::
  "('r, 'dt) host \<Rightarrow> 'r remote \<Rightarrow> string option \<Rightarrow> int \<Rightarrow> nat \<Rightarrow> campaign list \<Rightarrow> run_state
     \<Rightarrow> (error + unit) \<times> run_state" where
  "robust_rows h api newsletters_path save_interval i [] st = (Inr (), st)"
| "robust_rows h api newsletters_path save_interval i (campaign # rest) st =
     (case robust_process h api newsletters_path save_interval i campaign st of
        (Inl e, st') \<Rightarrow> (Inl e, st')
      | (Inr u, st') \<Rightarrow> robust_rows h api newsletters_path save_interval (Suc i) rest st')"

text \<open>
  \<^verbatim>\<open>generate_csv\<close> of the robust script, started in the world \<open>w\<close> with the
  output file holding \<open>d\<close>. The result is \<open>None\<close> when the listing fetch never
  returns; otherwise the exception raised or the value returned (Python's
  \<^verbatim>\<open>None\<close> when there are no campaigns, else the output path), and the final
  state.
\<close>

definition robust_generate_csv ::
  "('r, 'dt) host \<Rightarrow> 'r remote \<Rightarrow> string \<Rightarrow> string \<Rightarrow> int \<Rightarrow> world \<Rightarrow> csv_file option
     \<Rightarrow> ((error + string option) \<times> run_state) option" where
  "robust_generate_csv h api newsletters_dir output_file save_interval w d =
     (let newsletters_path =
            (if path_exists h newsletters_dir then Some newsletters_dir else None)
      in case robust_get_all_campaigns api w of
           None \<Rightarrow> None
         | Some (campaigns, w') \<Rightarrow>
             (let st = \<lparr>net = w', list_cache = Map.empty, csv_data = [], disk = d\<rparr>
              in if campaigns = [] then Some (Inr None, st)
                 else
                   (case robust_rows h api newsletters_path save_interval 1 campaigns st of
                      (Inl e, st') \<Rightarrow> Some (Inl e, st')
                    | (Inr u, st') \<Rightarrow>
                        Some (Inr (Some output_file),
                              save_progress (csv_data st') fieldnames st'))))"

section \<open>The run loop of the basic script\<close>

definition basic_audience ::
  "'r remote \<Rightarrow> campaign \<Rightarrow> run_state \<Rightarrow> (error + string) \<times> run_state" where
  "basic_audience api campaign st =
     (let lid = list_id_of campaign in
      if lid \<noteq> [] then
        (case list_cache st lid of
           None \<Rightarrow>
             (case basic_get_list_name api lid (net st) of
                (Inl e, w) \<Rightarrow> (Inl e, st\<lparr>net := w\<rparr>)
              | (Inr name, w) \<Rightarrow>
                  (Inr name, st\<lparr>net := w, list_cache := (list_cache st)(lid \<mapsto> name)\<rparr>))
         | Some name \<Rightarrow> (Inr name, st))
      else (Inr ''Unknown'', st))"

definition basic_process ::
  "('r, 'dt) host \<Rightarrow> 'r remote \<Rightarrow> string option \<Rightarrow> campaign \<Rightarrow> run_state
     \<Rightarrow> (error + unit) \<times> run_state" where
  "basic_process h api newsletters_path campaign st =
     (case basic_audience api campaign st of
        (Inl e, st) \<Rightarrow> (Inl e, st)
      | (Inr audience, st) \<Rightarrow>
          (case basic_get_campaign_report api (dict_get (cid campaign) ''N/A'') (net st) of
             (Inl e, w) \<Rightarrow> (Inl e, st\<lparr>net := w\<rparr>)
           | (Inr report, w) \<Rightarrow>
               (let st = st\<lparr>net := w\<rparr>;
                    row = build_row h newsletters_path campaign audience report
                in (Inr (), st\<lparr>csv_data := csv_data st @ [row]\<rparr>))))"

fun basic_rows ::
  "('r, 'dt) host \<Rightarrow> 'r remote \<Rightarrow> string option \<Rightarrow> campaign list \<Rightarrow> run_state
     \<Rightarrow> (error + unit) \<times> run_state" where
  "basic_rows h api newsletters_path [] st = (Inr (), st)"
| "basic_rows h api newsletters_path (campaign # rest) st =
     (case basic_process h api newsletters_path campaign st of
        (Inl e, st') \<Rightarrow> (Inl e, st')
      | (Inr u, st') \<Rightarrow> basic_rows h api newsletters_path rest st')"

definition basic_generate_csv ::
  "('r, 'dt) host \<Rightarrow> 'r remote \<Rightarrow> string \<Rightarrow> string \<Rightarrow> world \<Rightarrow> csv_file option
     \<Rightarrow> ((error + string option) \<times> run_state) option" where
  "basic_generate_csv h api newsletters_dir output_file w d =
     (let newsletters_path =
            (if path_exists h newsletters_dir then Some newsletters_dir else None)
      in case basic_get_all_campaigns api w of
           None \<Rightarrow> None
         | Some (Inl e, w') \<Rightarrow>
             Some (Inl e, \<lparr>net = w', list_cache = Map.empty, csv_data = [], disk = d\<rparr>)
         | Some (Inr campaigns, w') \<Rightarrow>
             (let st = \<lparr>net = w', list_cache = Map.empty, csv_data = [], disk = d\<rparr>
              in if campaigns = [] then Some (Inr None, st)
                 else
                   (case basic_rows h api newsletters_path campaigns st of
                      (Inl e, st') \<Rightarrow> Some (Inl e, st')
                    | (Inr u, st') \<Rightarrow>
                        Some (Inr (Some output_file),
                              st'\<lparr>disk := Some (write_csv (csv_data st') fieldnames)\<rparr>))))"

section \<open>Notions used to state the properties\<close>

text \<open>
  The world after \<open>n\<close> successive page requests with page size \<^verbatim>\<open>count\<close>, the
  first at \<^verbatim>\<open>offset\<close>, each advancing the offset by \<^verbatim>\<open>count\<close>.
\<close>

fun pages_world :: "nat \<Rightarrow> nat \<Rightarrow> nat \<Rightarrow> world \<Rightarrow> world" where
  "pages_world count offset 0 w = w"
| "pages_world count offset (Suc n) w =
     pages_world count (offset + count) n (issue (GetCampaigns count offset) w)"

text \<open>
  The world after \<open>n\<close> page requests for the same page that all timed out,
  each followed by the sleep of 2.
\<close>

fun retries_world :: "nat \<Rightarrow> nat \<Rightarrow> nat \<Rightarrow> world \<Rightarrow> world" where
  "retries_world count offset 0 w = w"
| "retries_world count offset (Suc n) w =
     retries_world count offset n (sleep 2 (issue (GetCampaigns count offset) w))"

text \<open>The quotient \<open>k / p\<close> rounded up.\<close>

definition ceil_div :: "nat \<Rightarrow> nat \<Rightarrow> nat" where
  "ceil_div k p = (k + p - 1) div p"

text \<open>
  What one attempt of a per-item fetch yields when it is not retried: the body
  of a response with status 200, the default value in every other case.
\<close>

definition report_of_reply :: "'r report reply \<Rightarrow> 'r report option" where
  "report_of_reply r =
     (case r of Reply status body \<Rightarrow> if status = 200 then Some body else None
      | Timeout \<Rightarrow> None | Failure \<Rightarrow> None)"

definition name_of_reply :: "string option reply \<Rightarrow> string" where
  "name_of_reply r =
     (case r of
        Reply status body \<Rightarrow> if status = 200 then dict_get body ''Unknown'' else ''Unknown''
      | Timeout \<Rightarrow> ''Unknown'' | Failure \<Rightarrow> ''Unknown'')"

text \<open>The eight metric columns of the CSV file.\<close>

definition metric_fields :: "string list" where
  "metric_fields =
     [''Emails Sent'', ''Unique Opens'', ''Open Rate (%)'', ''Unique Clicks'',
      ''Click Rate (%)'', ''Hard Bounces'', ''Soft Bounces'', ''Unsubscribes'']"

text \<open>The column \<^verbatim>\<open>Campaign ID\<close> of a list of rows, and the id a campaign is given.\<close>

definition campaign_ids :: "row list \<Rightarrow> cell option list" where
  "campaign_ids rows = map (\<lambda>r. map_of r ''Campaign ID'') rows"

definition id_cell :: "campaign \<Rightarrow> cell option" where
  "id_cell c = Some (Str (dict_get (cid c) ''N/A''))"

text \<open>The number of requests for the list \<open>l\<close> in a world's trace.\<close>

definition list_requests :: "string \<Rightarrow> world \<Rightarrow> nat" where
  "list_requests l w = count_list (trace w) (Request (GetList l))"

text \<open>
  The state in which \<^verbatim>\<open>generate_csv\<close> enters its loop, and the value of its
  variable \<^verbatim>\<open>newsletters_path\<close>.
\<close>

definition loop_start :: "world \<Rightarrow> csv_file option \<Rightarrow> run_state" where
  "loop_start w d = \<lparr>net = w, list_cache = Map.empty, csv_data = [], disk = d\<rparr>"

definition newsletters_path_of :: "('r, 'dt) host \<Rightarrow> string \<Rightarrow> string option" where
  "newsletters_path_of h newsletters_dir =
     (if path_exists h newsletters_dir then Some newsletters_dir else None)"

text \<open>
  The row that one pass of the robust loop appends for \<open>campaign\<close> when it
  starts in the state \<open>st\<close>.
\<close>

definition robust_row ::
  "('r, 'dt) host \<Rightarrow> 'r remote \<Rightarrow> string option \<Rightarrow> campaign \<Rightarrow> run_state \<Rightarrow> row" where
  "robust_row h api newsletters_path campaign st =
     (let (audience, st1) = robust_audience api campaign st;
          (report, w) = robust_get_campaign_report api (dict_get (cid campaign) ''N/A'') (net st1)
      in build_row h newsletters_path campaign audience report)"


text \<open>
  A remote API on which every request succeeds: each answer has status 200.
\<close>

definition all_ok :: "'r remote \<Rightarrow> bool" where
  "all_ok api \<longleftrightarrow>
     (\<forall>n count offset. \<exists>body. campaigns_ep api n count offset = Reply 200 body) \<and>
     (\<forall>n c. \<exists>body. reports_ep api n c = Reply 200 body) \<and>
     (\<forall>n l. \<exists>body. lists_ep api n l = Reply 200 body)"

text \<open>
  Two states of a run that have issued the same number of requests and hold
  the same cache and the same rows.
\<close>

definition same_progress :: "run_state \<Rightarrow> run_state \<Rightarrow> bool" where
  "same_progress st st' \<longleftrightarrow>
     clock (net st) = clock (net st') \<and> list_cache st = list_cache st' \<and>
     csv_data st = csv_data st'"

section \<open>Sample inputs\<close>

text \<open>
  The world before the first request, and the world right after the single
  page request of the sample runs.
\<close>

definition world0 :: world where
  "world0 = \<lparr>clock = 0, trace = []\<rparr>"

definition world1 :: world where
  "world1 = \<lparr>clock = 1, trace = [Request (GetCampaigns 1000 0)]\<rparr>"

text \<open>
  A host for the sample runs. Rates are rationals; a send time of 24
  characters parses, and its date and time are cut out of it; the only
  directory that exists is \<^verbatim>\<open>mailchimp_newsletters\<close>, and it is empty.
\<close>

definition host0 :: "(rat, string) host" where
  "host0 =
     \<lparr>strptime = (\<lambda>s. if length s = 24 then Some s else None),
      strftime_date = take 10,
      strftime_datetime = (\<lambda>s. take 10 s @ '' '' @ take 8 (drop 11 s)),
      format_pct = (\<lambda>x. if x = 1 / 2 then ''50.00'' else ''100.00''),
      path_exists = (\<lambda>p. p = ''mailchimp_newsletters''),
      path_join = (\<lambda>d f. d @ ''/'' @ f),
      path_absolute = (\<lambda>p. ''/home/user/'' @ p)\<rparr>"

definition hello :: campaign where
  "hello =
     \<lparr>cid = Some ''c1'',
      settings = Some \<lparr>subject_line = Some ''Hello'', preview_text = None\<rparr>,
      send_time = Some ''2024-01-05T10:00:00+0000'',
      recipients = Some \<lparr>list_id = Some ''L1'', segment_opts = False\<rparr>\<rparr>"

definition news :: campaign where
  "news =
     \<lparr>cid = Some ''c2'',
      settings = Some \<lparr>subject_line = Some ''News: 50% off?'', preview_text = Some ''Now''\<rparr>,
      send_time = Some ''2024-02-01T08:30:00+0000'',
      recipients = Some \<lparr>list_id = Some ''L1'', segment_opts = True\<rparr>\<rparr>"

definition full_page :: "campaign list" where
  "full_page = replicate 1000 hello"

definition sample_report :: "rat report" where
  "sample_report =
     \<lparr>emails_sent = Some 100,
      opens = Some \<lparr>unique_opens = Some 50, open_rate = Some (1 / 2)\<rparr>,
      clicks = None,
      bounces = Some \<lparr>hard_bounces = Some 2, soft_bounces = None\<rparr>,
      unsubscribed = Some 1\<rparr>"

text \<open>A remote API on which every request fails with a connection error.\<close>

definition api_down :: "rat remote" where
  "api_down =
     \<lparr>campaigns_ep = (\<lambda>n count offset. Failure),
      reports_ep = (\<lambda>n c. Failure),
      lists_ep = (\<lambda>n l. Failure)\<rparr>"

text \<open>
  A remote API whose requests number 0 and 1 time out; later requests find
  no campaign, no report (404) and the list named \<^verbatim>\<open>Friends\<close>.
\<close>

definition api_slow :: "rat remote" where
  "api_slow =
     \<lparr>campaigns_ep = (\<lambda>n count offset. if n < 2 then Timeout else Reply 200 (Some [])),
      reports_ep = (\<lambda>n c. if n < 2 then Timeout else Reply 404 sample_report),
      lists_ep = (\<lambda>n l. if n < 2 then Timeout else Reply 200 (Some ''Friends''))\<rparr>"

text \<open>
  Two remote APIs that serve a full page of 1000 campaigns to the first
  request; the later requests meet a connection error on the first API and
  the status 429 on the second.
\<close>

definition api_breaks :: "rat remote" where
  "api_breaks =
     \<lparr>campaigns_ep = (\<lambda>n count offset. if n = 0 then Reply 200 (Some full_page) else Failure),
      reports_ep = (\<lambda>n c. Failure),
      lists_ep = (\<lambda>n l. Failure)\<rparr>"

definition api_limits :: "rat remote" where
  "api_limits =
     \<lparr>campaigns_ep = (\<lambda>n count offset. if n = 0 then Reply 200 (Some full_page) else Reply 429 None),
      reports_ep = (\<lambda>n c. Failure),
      lists_ep = (\<lambda>n l. Failure)\<rparr>"

text \<open>
  Three remote APIs that hold the two sample campaigns (the third holds the
  first of them twice). On \<open>api_ok\<close> every request succeeds. On \<open>api_new\<close> no
  campaign has a report yet (404) and request number 1, which asks for a
  list, times out.
\<close>

definition api_ok :: "rat remote" where
  "api_ok =
     \<lparr>campaigns_ep = (\<lambda>n count offset. Reply 200 (Some (take count (drop offset [hello, news])))),
      reports_ep = (\<lambda>n c. Reply 200 sample_report),
      lists_ep = (\<lambda>n l. Reply 200 (Some ''Friends''))\<rparr>"

definition api_new :: "rat remote" where
  "api_new =
     \<lparr>campaigns_ep = (\<lambda>n count offset. Reply 200 (Some (take count (drop offset [hello, news])))),
      reports_ep = (\<lambda>n c. Reply 404 sample_report),
      lists_ep = (\<lambda>n l. if n = 1 then Timeout else Reply 200 (Some ''Friends''))\<rparr>"

definition api_dup :: "rat remote" where
  "api_dup =
     \<lparr>campaigns_ep = (\<lambda>n count offset. Reply 200 (Some (take count (drop offset [hello, hello])))),
      reports_ep = (\<lambda>n c. Reply 200 sample_report),
      lists_ep = (\<lambda>n l. Reply 200 (Some ''Friends''))\<rparr>"

text \<open>Lines of the CSV files that the sample runs write.\<close>

definition header_line :: "cell list" where
  "header_line =
     [Str ''Campaign ID'', Str ''Subject Line'', Str ''Preheader'', Str ''Audience/List'',
      Str ''Send Date'', Str ''Emails Sent'', Str ''Unique Opens'', Str ''Open Rate (%)'',
      Str ''Unique Clicks'', Str ''Click Rate (%)'', Str ''Hard Bounces'', Str ''Soft Bounces'',
      Str ''Unsubscribes'', Str ''Local File Path'']"

definition hello_line :: "cell list" where
  "hello_line =
     [Str ''c1'', Str ''Hello'', Str [], Str ''Friends'', Str ''2024-01-05 10:00:00'',
      Num 100, Num 50, Str ''50.00'', Num 0, Str ''0.00'', Num 2, Num 0, Num 1,
      Str ''Directory not found'']"

definition news_line :: "cell list" where
  "news_line =
     [Str ''c2'', Str ''News: 50% off?'', Str ''Now'', Str ''Friends (Segmented)'',
      Str ''2024-02-01 08:30:00'', Num 100, Num 50, Str ''50.00'', Num 0, Str ''0.00'',
      Num 2, Num 0, Num 1, Str ''Directory not found'']"

definition hello_line_no_report :: "cell list" where
  "hello_line_no_report =
     [Str ''c1'', Str ''Hello'', Str [], Str ''Friends'', Str ''2024-01-05 10:00:00'',
      Num 0, Num 0, Str ''0.00'', Num 0, Str ''0.00'', Num 0, Num 0, Num 0,
      Str ''Directory not found'']"

definition news_line_no_report :: "cell list" where
  "news_line_no_report =
     [Str ''c2'', Str ''News: 50% off?'', Str ''Now'', Str ''Friends (Segmented)'',
      Str ''2024-02-01 08:30:00'', Num 0, Num 0, Str ''0.00'', Num 0, Str ''0.00'',
      Num 0, Num 0, Num 0, Str ''Directory not found'']"

section \<open>Filename sanitization is safe\<close>

lemma sanitize_filename_eq:
  "sanitize_filename s =
     take 200 (map (\<lambda>c. if c = CHR '' '' then CHR ''_'' else c)
                 (filter (\<lambda>c. c \<notin> set illegal_chars) s))"
  by (simp add: sanitize_filename_def replace_spaces_def re_sub_illegal_def Let_def)

text \<open>
  C5. For every input string, the result of \<^verbatim>\<open>sanitize_filename\<close> contains none
  of the characters \<^verbatim>\<open>< > : " / \ | ? *\<close>, contains no space, and has at most
  200 characters. It is the input without the illegal characters, each space
  replaced by an underscore, cut after 200 characters.
\<close>

theorem sanitize_filename_safe:
  "set (sanitize_filename s) \<inter> set illegal_chars = {} \<and>
   CHR '' '' \<notin> set (sanitize_filename s) \<and>
   length (sanitize_filename s) \<le> 200 \<and>
   sanitize_filename s = take 200 (replace_spaces (re_sub_illegal s))"
proof -
  let ?t = "replace_spaces (re_sub_illegal s)"
  have legal: "set ?t \<inter> set illegal_chars = {}"
    by (auto simp: replace_spaces_def re_sub_illegal_def illegal_chars_def)
  have no_space: "CHR '' '' \<notin> set ?t"
    by (auto simp: replace_spaces_def)
  have eq: "sanitize_filename s = take 200 ?t"
    by (simp add: sanitize_filename_def Let_def)
  have sub: "set (take 200 ?t) \<subseteq> set ?t"
    by (rule set_take_subset)
  have len: "length (take 200 ?t) \<le> 200"
    by simp
  from legal no_space sub len show ?thesis
    unfolding eq by blast
qed

theorem sanitize_filename_safe_witness:
  "sanitize_filename ''Q&A: what is new? (part 1/2)'' = ''Q&A_what_is_new_(part_12)'' \<and>
   set ''Q&A_what_is_new_(part_12)'' \<inter> set illegal_chars = {} \<and>
   CHR '' '' \<notin> set ''Q&A_what_is_new_(part_12)''"
proof -
  have v: "sanitize_filename ''Q&A: what is new? (part 1/2)'' = ''Q&A_what_is_new_(part_12)''"
    by (simp add: sanitize_filename_def re_sub_illegal_def replace_spaces_def illegal_chars_def)
  from sanitize_filename_safe [of "''Q&A: what is new? (part 1/2)''"]
  have "set (sanitize_filename ''Q&A: what is new? (part 1/2)'') \<inter> set illegal_chars = {} \<and>
        CHR '' '' \<notin> set (sanitize_filename ''Q&A: what is new? (part 1/2)'')"
    by blast
  with v show ?thesis by metis
qed

section \<open>Retries of the per-item fetches\<close>

lemma range_3: "[0..<3] = [0, 1, 2::nat]"
  by (simp add: upt_rec)

lemma report_fetch_cases:
  "robust_get_campaign_report api c w =
     (if reports_ep api (clock w) c \<noteq> Timeout
      then (report_of_reply (reports_ep api (clock w) c), issue (GetReport c) w)
      else if reports_ep api (clock w + 1) c \<noteq> Timeout
      then (report_of_reply (reports_ep api (clock w + 1) c),
            issue (GetReport c) (sleep 2 (issue (GetReport c) w)))
      else (report_of_reply (reports_ep api (clock w + 2) c),
            issue (GetReport c) (sleep 2 (issue (GetReport c) (sleep 2 (issue (GetReport c) w))))))"
  by (simp add: robust_get_campaign_report_def range_3 report_of_reply_def Let_def issue_def sleep_def
      split: reply.splits)

lemma list_fetch_cases:
  "robust_get_list_name api l w =
     (if lists_ep api (clock w) l \<noteq> Timeout
      then (name_of_reply (lists_ep api (clock w) l), issue (GetList l) w)
      else if lists_ep api (clock w + 1) l \<noteq> Timeout
      then (name_of_reply (lists_ep api (clock w + 1) l),
            issue (GetList l) (sleep 2 (issue (GetList l) w)))
      else (name_of_reply (lists_ep api (clock w + 2) l),
            issue (GetList l) (sleep 2 (issue (GetList l) (sleep 2 (issue (GetList l) w))))))"
  by (simp add: robust_get_list_name_def range_3 name_of_reply_def Let_def issue_def sleep_def
      split: reply.splits)

text \<open>
  C3. \<^verbatim>\<open>get_campaign_report\<close> and \<^verbatim>\<open>get_list_name\<close> of the robust script return
  after the first attempt that does not time out, or after the third attempt,
  whichever comes first, so they make at most three requests. A sleep of 2
  follows the first and the second attempt exactly when that attempt timed
  out. A reply that is not a timeout is never retried: with status 200 its
  body is returned, otherwise the default (no report, the name \<^verbatim>\<open>Unknown\<close>).
  Both functions return a value for every behaviour of the remote API: no
  exception of a request reaches the caller.
\<close>

theorem per_item_fetch_retries:
  "robust_get_campaign_report api c w =
     (if reports_ep api (clock w) c \<noteq> Timeout
      then (report_of_reply (reports_ep api (clock w) c), issue (GetReport c) w)
      else if reports_ep api (clock w + 1) c \<noteq> Timeout
      then (report_of_reply (reports_ep api (clock w + 1) c),
            issue (GetReport c) (sleep 2 (issue (GetReport c) w)))
      else (report_of_reply (reports_ep api (clock w + 2) c),
            issue (GetReport c) (sleep 2 (issue (GetReport c) (sleep 2 (issue (GetReport c) w)))))) \<and>
   robust_get_list_name api l w =
     (if lists_ep api (clock w) l \<noteq> Timeout
      then (name_of_reply (lists_ep api (clock w) l), issue (GetList l) w)
      else if lists_ep api (clock w + 1) l \<noteq> Timeout
      then (name_of_reply (lists_ep api (clock w + 1) l),
            issue (GetList l) (sleep 2 (issue (GetList l) w)))
      else (name_of_reply (lists_ep api (clock w + 2) l),
            issue (GetList l) (sleep 2 (issue (GetList l) (sleep 2 (issue (GetList l) w)))))) \<and>
   clock (snd (robust_get_campaign_report api c w)) \<le> clock w + 3 \<and>
   clock (snd (robust_get_list_name api l w)) \<le> clock w + 3 \<and>
   report_of_reply Failure = (None :: 'r report option) \<and>
   report_of_reply Timeout = (None :: 'r report option) \<and>
   (status \<noteq> 200 \<longrightarrow> report_of_reply (Reply status (body :: 'r report)) = None) \<and>
   name_of_reply Failure = ''Unknown'' \<and>
   name_of_reply Timeout = ''Unknown'' \<and>
   (status \<noteq> 200 \<longrightarrow> name_of_reply (Reply status name) = ''Unknown'')"
proof -
  have r: "clock (snd (robust_get_campaign_report api c w)) \<le> clock w + 3"
    by (simp add: report_fetch_cases issue_def sleep_def)
  have n: "clock (snd (robust_get_list_name api l w)) \<le> clock w + 3"
    by (simp add: list_fetch_cases issue_def sleep_def)
  have d: "report_of_reply Failure = (None :: 'r report option)"
      "report_of_reply Timeout = (None :: 'r report option)"
      "status \<noteq> 200 \<longrightarrow> report_of_reply (Reply status (body :: 'r report)) = None"
      "name_of_reply Failure = ''Unknown''"
      "name_of_reply Timeout = ''Unknown''"
      "status \<noteq> 200 \<longrightarrow> name_of_reply (Reply status name) = ''Unknown''"
    by (simp_all add: report_of_reply_def name_of_reply_def)
  from r n d show ?thesis
    using report_fetch_cases [of api c w] list_fetch_cases [of api l w] by blast
qed

theorem per_item_fetch_retries_witness:
  "robust_get_campaign_report api_slow ''c1'' world0 =
     (None, \<lparr>clock = 3, trace = [Request (GetReport ''c1''), Sleep 2, Request (GetReport ''c1''),
                                 Sleep 2, Request (GetReport ''c1'')]\<rparr>) \<and>
   robust_get_list_name api_slow ''L1'' (issue (GetCampaigns 1000 0) world0) =
     (''Friends'', \<lparr>clock = 3, trace = [Request (GetCampaigns 1000 0), Request (GetList ''L1''),
                                        Sleep 2, Request (GetList ''L1'')]\<rparr>) \<and>
   robust_get_list_name api_down ''L1'' world0 =
     (''Unknown'', \<lparr>clock = 1, trace = [Request (GetList ''L1'')]\<rparr>)"
  using per_item_fetch_retries [of api_slow "''c1''" world0 "''L1''" 404 undefined undefined]
    per_item_fetch_retries [of api_slow "''c1''" "issue (GetCampaigns 1000 0) world0" "''L1''" 404 undefined undefined]
    per_item_fetch_retries [of api_down "''c1''" world0 "''L1''" 404 undefined undefined]
  by (simp add: api_slow_def api_down_def world0_def issue_def sleep_def
      report_of_reply_def name_of_reply_def dict_get_def)

section \<open>The paginated fetch against a remote API that holds \<open>k\<close> campaigns\<close>

lemma clock_pages_world: "clock (pages_world p off n w) = clock w + n"
  by (induction n arbitrary: off w) (simp_all add: issue_def)

lemma trace_pages_world:
  "trace (pages_world p off n w) =
     trace w @ map (\<lambda>j. Request (GetCampaigns p (off + j * p))) [0..<n]"
proof (induction n arbitrary: off w)
  case 0
  then show ?case by simp
next
  case (Suc n)
  have "map (\<lambda>j. Request (GetCampaigns p (off + j * p))) [0..<Suc n] =
        Request (GetCampaigns p off) # map (\<lambda>j. Request (GetCampaigns p (off + p + j * p))) [0..<n]"
    by (simp add: upt_conv_Cons map_Suc_upt [symmetric] add.assoc del: upt_Suc)
  with Suc show ?case by (simp add: issue_def del: upt_Suc)
qed

lemma campaigns_ep_holding:
  "campaigns_ep (holding cs api) n count offset = Reply 200 (Some (take count (drop offset cs)))"
  by (simp add: holding_def)

lemma robust_loop_holding:
  assumes p: "0 < p"
  shows "robust_campaigns_loop (holding cs api) p acc off w =
           Some (acc @ drop off cs, pages_world p off ((length cs - off) div p + 1) w)"
proof (induction "length cs - off" arbitrary: acc off w rule: less_induct)
  case less
  let ?q = "GetCampaigns p off"
  let ?batch = "take p (drop off cs)"
  show ?case
  proof (cases "length cs - off < p")
    case True
    then have short: "?batch = drop off cs" by simp
    from True have n: "(length cs - off) div p = 0" by simp
    from True short p show ?thesis
      by (subst robust_campaigns_loop.simps)
        (simp add: n dict_get_def Let_def campaigns_ep_holding)
  next
    case False
    then have len: "length ?batch = p" by simp
    with p have ne: "?batch \<noteq> []" by auto
    from False p have smaller: "length cs - (off + p) < length cs - off" by simp
    from False have n: "(length cs - off) div p = Suc ((length cs - (off + p)) div p)"
      using p by (simp add: le_div_geq)
    have app: "(acc @ ?batch) @ drop (off + p) cs = acc @ drop off cs"
      by (simp add: add.commute [of off p] drop_drop [symmetric] del: drop_drop)
    from less [OF smaller, of "acc @ ?batch" "issue ?q w"] ne len app n show ?thesis
      by (subst robust_campaigns_loop.simps)
        (simp add: dict_get_def Let_def campaigns_ep_holding)
  qed
qed

lemma basic_loop_holding:
  assumes p: "0 < p"
  shows "basic_campaigns_loop (holding cs api) p acc off w =
           Some (Inr (acc @ drop off cs), pages_world p off ((length cs - off) div p + 1) w)"
proof (induction "length cs - off" arbitrary: acc off w rule: less_induct)
  case less
  let ?q = "GetCampaigns p off"
  let ?batch = "take p (drop off cs)"
  show ?case
  proof (cases "length cs - off < p")
    case True
    then have short: "?batch = drop off cs" by simp
    from True have n: "(length cs - off) div p = 0" by simp
    from True short p show ?thesis
      by (subst basic_campaigns_loop.simps)
        (simp add: n dict_get_def Let_def campaigns_ep_holding)
  next
    case False
    then have len: "length ?batch = p" by simp
    with p have ne: "?batch \<noteq> []" by auto
    from False p have smaller: "length cs - (off + p) < length cs - off" by simp
    from False have n: "(length cs - off) div p = Suc ((length cs - (off + p)) div p)"
      using p by (simp add: le_div_geq)
    have app: "(acc @ ?batch) @ drop (off + p) cs = acc @ drop off cs"
      by (simp add: add.commute [of off p] drop_drop [symmetric] del: drop_drop)
    from less [OF smaller, of "acc @ ?batch" "issue ?q w"] ne len app n show ?thesis
      by (subst basic_campaigns_loop.simps)
        (simp add: dict_get_def Let_def campaigns_ep_holding)
  qed
qed

lemma div_plus_rest:
  fixes p :: nat
  assumes "r < p"
  shows "(d * p + r) div p = d"
proof -
  from assms have p: "p \<noteq> 0" by simp
  have "(d * p + r) div p = d + r div p" using p by (intro div_mult_self3)
  with assms show ?thesis by simp
qed

lemma pages_vs_ceil_div:
  assumes p: "0 < p"
  shows "k div p + 1 = (if p dvd k then ceil_div k p + 1 else ceil_div k p)"
proof (cases "p dvd k")
  case True
  then obtain m where k: "k = m * p" by (auto simp: dvd_def mult.commute)
  have e: "k + p - 1 = m * p + (p - 1)" using p k by simp
  have "(m * p + (p - 1)) div p = m" using p by (intro div_plus_rest) simp
  with e have c: "ceil_div k p = m" by (simp only: ceil_div_def)
  from k p have "k div p = m" by simp
  with c True show ?thesis by simp
next
  case False
  define d r where "d = k div p" and "r = k mod p"
  from False have r: "0 < r" by (simp add: dvd_eq_mod_eq_0 r_def)
  have rp: "r < p" using p by (simp add: r_def)
  have k: "k = d * p + r" by (simp add: d_def r_def)
  have e: "k + p - 1 = (d + 1) * p + (r - 1)" using r by (simp add: k)
  have "((d + 1) * p + (r - 1)) div p = d + 1" using rp by (intro div_plus_rest) simp
  with e have "ceil_div k p = d + 1" by (simp only: ceil_div_def)
  with False show ?thesis by (simp add: d_def)
qed

lemma pages_world_1: "pages_world p off 1 w = issue (GetCampaigns p off) w"
  by simp

lemma pages_world_2:
  "pages_world p off 2 w = issue (GetCampaigns p (off + p)) (issue (GetCampaigns p off) w)"
  by (simp add: numeral_2_eq_2)

text \<open>
  C1, as the code has it. Against a remote API that holds the campaigns \<open>cs\<close>
  and serves them in pages, \<^verbatim>\<open>get_all_campaigns\<close> of either script returns
  exactly \<open>cs\<close>, after \<open>length cs div 1000 + 1\<close> page requests at the offsets 0,
  1000, 2000, ...; the same holds for every page size \<open>p > 0\<close>. That number is
  the quotient rounded up when \<open>p\<close> does not divide the number of campaigns, and
  one more than it when it does (also when there are no campaigns): a full
  last page is followed by a request that finds the empty page. The loop
  stops at the first page with status 200 that is empty or shorter than \<open>p\<close>.
\<close>

theorem paginated_fetch_pages:
  "robust_get_all_campaigns (holding cs api) w =
     Some (cs, pages_world 1000 0 (length cs div 1000 + 1) w) \<and>
   basic_get_all_campaigns (holding cs api) w =
     Some (Inr cs, pages_world 1000 0 (length cs div 1000 + 1) w) \<and>
   (0 < p \<longrightarrow>
      robust_campaigns_loop (holding cs api) p [] 0 w =
        Some (cs, pages_world p 0 (length cs div p + 1) w) \<and>
      basic_campaigns_loop (holding cs api) p [] 0 w =
        Some (Inr cs, pages_world p 0 (length cs div p + 1) w) \<and>
      length cs div p + 1 =
        (if p dvd length cs then ceil_div (length cs) p + 1 else ceil_div (length cs) p)) \<and>
   clock (pages_world p 0 n w) = clock w + n \<and>
   trace (pages_world p 0 n w) = trace w @ map (\<lambda>j. Request (GetCampaigns p (j * p))) [0..<n] \<and>
   (campaigns_ep srv (clock w) p off = Reply 200 body \<and>
    (dict_get body [] = [] \<or> length (dict_get body []) < p) \<longrightarrow>
      robust_campaigns_loop srv p acc off w =
        Some (acc @ dict_get body [], issue (GetCampaigns p off) w) \<and>
      basic_campaigns_loop srv p acc off w =
        Some (Inr (acc @ dict_get body []), issue (GetCampaigns p off) w))"
proof -
  have r: "0 < q \<Longrightarrow> robust_campaigns_loop (holding cs api) q [] 0 w =
        Some (cs, pages_world q 0 (length cs div q + 1) w)" for q
    using robust_loop_holding [of q cs api "[]" 0 w] by simp
  have b: "0 < q \<Longrightarrow> basic_campaigns_loop (holding cs api) q [] 0 w =
        Some (Inr cs, pages_world q 0 (length cs div q + 1) w)" for q
    using basic_loop_holding [of q cs api "[]" 0 w] by simp
  have r1000: "robust_get_all_campaigns (holding cs api) w =
     Some (cs, pages_world 1000 0 (length cs div 1000 + 1) w)"
    unfolding robust_get_all_campaigns_def by (rule r) simp
  have b1000: "basic_get_all_campaigns (holding cs api) w =
     Some (Inr cs, pages_world 1000 0 (length cs div 1000 + 1) w)"
    unfolding basic_get_all_campaigns_def by (rule b) simp
  have t: "trace (pages_world p 0 n w) =
      trace w @ map (\<lambda>j. Request (GetCampaigns p (j * p))) [0..<n]"
    using trace_pages_world [of p 0 n w] by simp
  have stop_r: "robust_campaigns_loop srv p acc off w =
        Some (acc @ dict_get body [], issue (GetCampaigns p off) w)"
    if "campaigns_ep srv (clock w) p off = Reply 200 body"
      and "dict_get body [] = [] \<or> length (dict_get body []) < p"
    using that by (subst robust_campaigns_loop.simps) (auto simp: Let_def)
  have stop_b: "basic_campaigns_loop srv p acc off w =
        Some (Inr (acc @ dict_get body []), issue (GetCampaigns p off) w)"
    if "campaigns_ep srv (clock w) p off = Reply 200 body"
      and "dict_get body [] = [] \<or> length (dict_get body []) < p"
    using that by (subst basic_campaigns_loop.simps) (auto simp: Let_def)
  from r b r1000 b1000 t stop_r stop_b pages_vs_ceil_div [of p "length cs"]
    clock_pages_world [of p 0 n w]
  show ?thesis by blast
qed

theorem paginated_fetch_pages_witness:
  "(0::nat) < 2 \<and>
   robust_campaigns_loop (holding [hello, news, hello] api_down) 2 [] 0 world0 =
     Some ([hello, news, hello],
           \<lparr>clock = 2, trace = [Request (GetCampaigns 2 0), Request (GetCampaigns 2 2)]\<rparr>) \<and>
   basic_campaigns_loop (holding [hello, news, hello] api_down) 2 [] 0 world0 =
     Some (Inr [hello, news, hello],
           \<lparr>clock = 2, trace = [Request (GetCampaigns 2 0), Request (GetCampaigns 2 2)]\<rparr>)"
proof -
  have h: "(0::nat) < 2" by simp
  have n: "length [hello, news, hello] div 2 + 1 = 2" by simp
  have w: "pages_world 2 0 (length [hello, news, hello] div 2 + 1) world0 =
      \<lparr>clock = 2, trace = [Request (GetCampaigns 2 0), Request (GetCampaigns 2 2)]\<rparr>"
    unfolding n pages_world_2 by (simp add: issue_def world0_def)
  from paginated_fetch_pages [of "[hello, news, hello]" api_down world0 2 0 undefined undefined undefined undefined]
    h show ?thesis
    unfolding w by blast
qed

text \<open>
  The page count of C1 fails where the page size divides the number of
  campaigns: 1000 campaigns take two requests, no campaign takes one.
\<close>

theorem paginated_fetch_pages_counterexample:
  "robust_get_all_campaigns (holding (replicate 1000 hello) api_down) world0 =
     Some (replicate 1000 hello,
           \<lparr>clock = 2, trace = [Request (GetCampaigns 1000 0), Request (GetCampaigns 1000 1000)]\<rparr>) \<and>
   ceil_div (length (replicate 1000 hello)) 1000 = 1 \<and>
   robust_get_all_campaigns (holding [] api_down) world0 =
     Some ([], \<lparr>clock = 1, trace = [Request (GetCampaigns 1000 0)]\<rparr>) \<and>
   ceil_div (length ([] :: campaign list)) 1000 = 0"
proof -
  have n2: "(length (replicate 1000 hello) - 0) div 1000 + 1 = 2" by simp
  have n1: "(length ([] :: campaign list) - 0) div 1000 + 1 = 1" by simp
  have w2: "pages_world 1000 0 2 world0 =
      \<lparr>clock = 2, trace = [Request (GetCampaigns 1000 0), Request (GetCampaigns 1000 1000)]\<rparr>"
    unfolding pages_world_2 by (simp add: issue_def world0_def)
  have w1: "pages_world 1000 0 1 world0 = \<lparr>clock = 1, trace = [Request (GetCampaigns 1000 0)]\<rparr>"
    unfolding pages_world_1 by (simp add: issue_def world0_def)
  have a: "robust_get_all_campaigns (holding (replicate 1000 hello) api_down) world0 =
     Some (replicate 1000 hello,
           \<lparr>clock = 2, trace = [Request (GetCampaigns 1000 0), Request (GetCampaigns 1000 1000)]\<rparr>)"
    unfolding robust_get_all_campaigns_def
    using robust_loop_holding [of 1000 "replicate 1000 hello" api_down "[]" 0 world0]
    unfolding n2 w2 by simp
  have b: "robust_get_all_campaigns (holding [] api_down) world0 =
     Some ([], \<lparr>clock = 1, trace = [Request (GetCampaigns 1000 0)]\<rparr>)"
    unfolding robust_get_all_campaigns_def
    using robust_loop_holding [of 1000 "[]" api_down "[]" 0 world0]
    unfolding n1 w1 by simp
  have c: "ceil_div (length (replicate 1000 hello)) 1000 = 1"
      "ceil_div (length ([] :: campaign list)) 1000 = 0"
    by (simp_all add: ceil_div_def)
  from a b c show ?thesis by blast
qed

section \<open>Failures and timeouts of the listing fetch\<close>

lemma robust_loop_stops_on_error:
  assumes "campaigns_ep api (clock w) count offset = Failure \<or>
           (\<exists>status body. campaigns_ep api (clock w) count offset = Reply status body \<and> status \<noteq> 200)"
  shows "robust_campaigns_loop api count campaigns offset w =
           Some (campaigns, issue (GetCampaigns count offset) w)"
  using assms by (subst robust_campaigns_loop.simps) (auto simp: Let_def)

lemma basic_loop_stops_on_status:
  assumes "campaigns_ep api (clock w) count offset = Reply status body" and "status \<noteq> 200"
  shows "basic_campaigns_loop api count campaigns offset w =
           Some (Inr campaigns, issue (GetCampaigns count offset) w)"
  using assms by (subst basic_campaigns_loop.simps) (simp add: Let_def)

lemma basic_loop_raises:
  "campaigns_ep api (clock w) count offset = Failure \<Longrightarrow>
     basic_campaigns_loop api count campaigns offset w =
       Some (Inl RequestError, issue (GetCampaigns count offset) w)"
  "campaigns_ep api (clock w) count offset = Timeout \<Longrightarrow>
     basic_campaigns_loop api count campaigns offset w =
       Some (Inl TimeoutError, issue (GetCampaigns count offset) w)"
  by (subst basic_campaigns_loop.simps, simp add: Let_def)+

lemma length_full_page: "length full_page = 1000"
  by (simp add: full_page_def)

lemma full_page_not_empty: "full_page \<noteq> []"
  using length_full_page by auto

lemma robust_loop_full_page:
  assumes "campaigns_ep api (clock w) 1000 offset = Reply 200 (Some full_page)"
  shows "robust_campaigns_loop api 1000 campaigns offset w =
           robust_campaigns_loop api 1000 (campaigns @ full_page) (offset + 1000)
             (issue (GetCampaigns 1000 offset) w)"
  using assms
  by (subst robust_campaigns_loop.simps)
    (simp add: Let_def dict_get_def length_full_page full_page_not_empty)

lemma basic_loop_full_page:
  assumes "campaigns_ep api (clock w) 1000 offset = Reply 200 (Some full_page)"
  shows "basic_campaigns_loop api 1000 campaigns offset w =
           basic_campaigns_loop api 1000 (campaigns @ full_page) (offset + 1000)
             (issue (GetCampaigns 1000 offset) w)"
  using assms
  by (subst basic_campaigns_loop.simps)
    (simp add: Let_def dict_get_def length_full_page full_page_not_empty)

text \<open>
  C7, as the code has it. In the robust script a page request that ends with
  a status other than 200 or with an exception other than a timeout ends the
  loop at once, and \<^verbatim>\<open>get_all_campaigns\<close> returns exactly the campaigns
  accumulated so far. In the basic script this holds for a status other than
  200; an exception of the request is not caught there and reaches the
  caller, so the accumulated campaigns are not returned.
\<close>

theorem listing_error_partial_result:
  "(campaigns_ep api (clock w) count offset = Failure \<or>
    (\<exists>status body. campaigns_ep api (clock w) count offset = Reply status body \<and> status \<noteq> 200)
    \<longrightarrow> robust_campaigns_loop api count campaigns offset w =
          Some (campaigns, issue (GetCampaigns count offset) w)) \<and>
   ((\<exists>status body. campaigns_ep api (clock w) count offset = Reply status body \<and> status \<noteq> 200)
    \<longrightarrow> basic_campaigns_loop api count campaigns offset w =
          Some (Inr campaigns, issue (GetCampaigns count offset) w)) \<and>
   (campaigns_ep api (clock w) count offset = Failure
    \<longrightarrow> basic_campaigns_loop api count campaigns offset w =
          Some (Inl RequestError, issue (GetCampaigns count offset) w))"
  using robust_loop_stops_on_error [of api w count offset campaigns]
    basic_loop_stops_on_status [of api w count offset _ _ campaigns]
    basic_loop_raises(1) [of api w count offset campaigns]
  by blast

theorem listing_error_partial_result_witness:
  "robust_get_all_campaigns api_breaks world0 =
     Some (full_page,
           \<lparr>clock = 2, trace = [Request (GetCampaigns 1000 0), Request (GetCampaigns 1000 1000)]\<rparr>) \<and>
   robust_get_all_campaigns api_limits world0 =
     Some (full_page,
           \<lparr>clock = 2, trace = [Request (GetCampaigns 1000 0), Request (GetCampaigns 1000 1000)]\<rparr>) \<and>
   basic_get_all_campaigns api_limits world0 =
     Some (Inr full_page,
           \<lparr>clock = 2, trace = [Request (GetCampaigns 1000 0), Request (GetCampaigns 1000 1000)]\<rparr>)"
proof -
  let ?w1 = "issue (GetCampaigns 1000 0) world0"
  have c1: "clock ?w1 = 1" by (simp add: issue_def world0_def)
  have f: "campaigns_ep api_breaks (clock ?w1) 1000 1000 = Failure"
    unfolding c1 by (simp add: api_breaks_def)
  have s: "campaigns_ep api_limits (clock ?w1) 1000 1000 = Reply 429 None \<and> (429::nat) \<noteq> 200"
    unfolding c1 by (simp add: api_limits_def)
  have w2: "issue (GetCampaigns 1000 1000) ?w1 =
      \<lparr>clock = 2, trace = [Request (GetCampaigns 1000 0), Request (GetCampaigns 1000 1000)]\<rparr>"
    by (simp add: issue_def world0_def)
  have a: "robust_get_all_campaigns api_breaks world0 =
      robust_campaigns_loop api_breaks 1000 full_page 1000 ?w1"
    unfolding robust_get_all_campaigns_def
    using robust_loop_full_page [of api_breaks world0 0 "[]"]
    by (simp add: api_breaks_def world0_def)
  have b: "robust_get_all_campaigns api_limits world0 =
      robust_campaigns_loop api_limits 1000 full_page 1000 ?w1"
    unfolding robust_get_all_campaigns_def
    using robust_loop_full_page [of api_limits world0 0 "[]"]
    by (simp add: api_limits_def world0_def)
  have c: "basic_get_all_campaigns api_limits world0 =
      basic_campaigns_loop api_limits 1000 full_page 1000 ?w1"
    unfolding basic_get_all_campaigns_def
    using basic_loop_full_page [of api_limits world0 0 "[]"]
    by (simp add: api_limits_def world0_def)
  from listing_error_partial_result [of api_breaks ?w1 1000 1000 full_page] f
  have a': "robust_campaigns_loop api_breaks 1000 full_page 1000 ?w1 =
      Some (full_page, issue (GetCampaigns 1000 1000) ?w1)"
    by blast
  from listing_error_partial_result [of api_limits ?w1 1000 1000 full_page] s
  have b': "robust_campaigns_loop api_limits 1000 full_page 1000 ?w1 =
      Some (full_page, issue (GetCampaigns 1000 1000) ?w1)"
    and c': "basic_campaigns_loop api_limits 1000 full_page 1000 ?w1 =
      Some (Inr full_page, issue (GetCampaigns 1000 1000) ?w1)"
    by blast+
  show ?thesis
    unfolding a b c a' b' c' w2 by simp
qed

text \<open>
  C7 fails for the basic script: after one full page, a connection error on
  the second request makes \<^verbatim>\<open>get_all_campaigns\<close> raise, where the robust script
  returns the page.
\<close>

theorem listing_error_partial_result_counterexample:
  "basic_get_all_campaigns api_breaks world0 =
     Some (Inl RequestError,
           \<lparr>clock = 2, trace = [Request (GetCampaigns 1000 0), Request (GetCampaigns 1000 1000)]\<rparr>)"
proof -
  let ?w1 = "issue (GetCampaigns 1000 0) world0"
  have c1: "clock ?w1 = 1" by (simp add: issue_def world0_def)
  have f: "campaigns_ep api_breaks (clock ?w1) 1000 1000 = Failure"
    unfolding c1 by (simp add: api_breaks_def)
  have w2: "issue (GetCampaigns 1000 1000) ?w1 =
      \<lparr>clock = 2, trace = [Request (GetCampaigns 1000 0), Request (GetCampaigns 1000 1000)]\<rparr>"
    by (simp add: issue_def world0_def)
  have a: "basic_get_all_campaigns api_breaks world0 =
      basic_campaigns_loop api_breaks 1000 full_page 1000 ?w1"
    unfolding basic_get_all_campaigns_def
    using basic_loop_full_page [of api_breaks world0 0 "[]"]
    by (simp add: api_breaks_def world0_def)
  show ?thesis
    unfolding a basic_loop_raises(1) [OF f] w2 by simp
qed

lemma clock_retries_world: "clock (retries_world count offset n w) = clock w + n"
  by (induction n arbitrary: w) (simp_all add: issue_def sleep_def)

lemma trace_retries_world:
  "trace (retries_world count offset n w) =
     trace w @ concat (replicate n [Request (GetCampaigns count offset), Sleep 2])"
  by (induction n arbitrary: w) (simp_all add: issue_def sleep_def)

lemma robust_loop_timeout:
  assumes "campaigns_ep api (clock w) count offset = Timeout"
  shows "robust_campaigns_loop api count campaigns offset w =
           robust_campaigns_loop api count campaigns offset
             (sleep 2 (issue (GetCampaigns count offset) w))"
  using assms by (subst robust_campaigns_loop.simps) (simp add: Let_def)

lemma robust_loop_timeouts:
  assumes "\<forall>t<n. campaigns_ep api (clock w + t) count offset = Timeout"
  shows "robust_campaigns_loop api count campaigns offset w =
           robust_campaigns_loop api count campaigns offset (retries_world count offset n w)"
  using assms
proof (induction n arbitrary: w)
  case 0
  then show ?case by simp
next
  case (Suc n)
  let ?w' = "sleep 2 (issue (GetCampaigns count offset) w)"
  from Suc.prems have first: "campaigns_ep api (clock w) count offset = Timeout"
    by (metis add.right_neutral zero_less_Suc)
  have c: "clock ?w' = Suc (clock w)" by (simp add: issue_def sleep_def)
  have rest: "\<forall>t<n. campaigns_ep api (clock ?w' + t) count offset = Timeout"
  proof (intro allI impI)
    fix t assume "t < n"
    then have "Suc t < Suc n" by simp
    with Suc.prems have "campaigns_ep api (clock w + Suc t) count offset = Timeout" by blast
    then show "campaigns_ep api (clock ?w' + t) count offset = Timeout" by (simp add: c)
  qed
  from robust_loop_timeout [OF first] Suc.IH [OF rest] show ?case by simp
qed

lemma robust_loop_never_returns:
  assumes "robust_campaigns_loop api count campaigns offset w = Some y"
  shows "\<exists>t. campaigns_ep api (clock w + t) count offset \<noteq> Timeout"
  using assms
proof (induction rule: robust_campaigns_loop.raw_induct [rotated 1, consumes 1])
  case (1 loop api count campaigns offset w y)
  show ?case
  proof (cases "campaigns_ep api (clock w) count offset = Timeout")
    case True
    let ?w' = "sleep 2 (issue (GetCampaigns count offset) w)"
    from True "1.hyps" have "loop api count campaigns offset ?w' = Some y"
      by (simp add: Let_def)
    from "1.IH" [OF this] obtain t
      where "campaigns_ep api (clock ?w' + t) count offset \<noteq> Timeout" by blast
    then have "campaigns_ep api (clock w + Suc t) count offset \<noteq> Timeout"
      by (simp add: issue_def sleep_def)
    then show ?thesis by blast
  next
    case False
    then have "campaigns_ep api (clock w + 0) count offset \<noteq> Timeout" by simp
    then show ?thesis by blast
  qed
qed

text \<open>
  C8. In the robust script, a page request that times out is followed by a
  sleep of 2 and by the request for the same page: the loop goes on with the
  same offset and the same accumulated campaigns. This holds for any number
  \<open>n\<close> of timeouts in a row, and when every request for the page times out the
  fetch never returns.
\<close>

theorem listing_timeout_retries_same_page:
  "((\<forall>t<n. campaigns_ep api (clock w + t) count offset = Timeout) \<longrightarrow>
      robust_campaigns_loop api count campaigns offset w =
        robust_campaigns_loop api count campaigns offset (retries_world count offset n w)) \<and>
   clock (retries_world count offset n w) = clock w + n \<and>
   trace (retries_world count offset n w) =
     trace w @ concat (replicate n [Request (GetCampaigns count offset), Sleep 2]) \<and>
   ((\<forall>t. campaigns_ep api (clock w + t) count offset = Timeout) \<longrightarrow>
      robust_campaigns_loop api count campaigns offset w = None)"
proof -
  have never: "robust_campaigns_loop api count campaigns offset w = None"
    if "\<forall>t. campaigns_ep api (clock w + t) count offset = Timeout"
  proof (cases "robust_campaigns_loop api count campaigns offset w")
    case None
    then show ?thesis .
  next
    case (Some y)
    from robust_loop_never_returns [OF Some] that show ?thesis by blast
  qed
  from never robust_loop_timeouts [of n api w count offset campaigns]
    clock_retries_world [of count offset n w] trace_retries_world [of count offset n w]
  show ?thesis by blast
qed

theorem listing_timeout_retries_same_page_witness:
  "campaigns_ep api_slow (clock world0 + 0) 1000 0 = Timeout \<and>
   campaigns_ep api_slow (clock world0 + 1) 1000 0 = Timeout \<and>
   robust_get_all_campaigns api_slow world0 =
     Some ([], \<lparr>clock = 3,
                trace = [Request (GetCampaigns 1000 0), Sleep 2, Request (GetCampaigns 1000 0),
                         Sleep 2, Request (GetCampaigns 1000 0)]\<rparr>)"
proof -
  have h: "\<forall>t<2. campaigns_ep api_slow (clock world0 + t) 1000 0 = Timeout"
    by (simp add: api_slow_def world0_def)
  let ?w2 = "retries_world 1000 0 2 world0"
  have w2: "?w2 = \<lparr>clock = 2, trace = [Request (GetCampaigns 1000 0), Sleep 2,
                                        Request (GetCampaigns 1000 0), Sleep 2]\<rparr>"
    by (simp add: numeral_2_eq_2 issue_def sleep_def world0_def)
  from listing_timeout_retries_same_page [of 2 api_slow world0 1000 0 "[]"] h
  have "robust_campaigns_loop api_slow 1000 [] 0 world0 =
      robust_campaigns_loop api_slow 1000 [] 0 ?w2"
    by blast
  also have "\<dots> = Some ([], issue (GetCampaigns 1000 0) ?w2)"
    unfolding w2
    by (subst robust_campaigns_loop.simps) (simp add: api_slow_def Let_def dict_get_def)
  finally show ?thesis
    unfolding w2 robust_get_all_campaigns_def
    by (simp add: issue_def api_slow_def world0_def)
qed

section \<open>The run loop of the robust script: rows and checkpoints\<close>

lemma robust_audience_keeps:
  "csv_data (snd (robust_audience api c st)) = csv_data st"
  "disk (snd (robust_audience api c st)) = disk st"
  by (simp_all add: robust_audience_def Let_def split_def split: option.splits)

lemma csv_data_robust_process:
  "csv_data (snd (robust_process h api np N i c st)) = csv_data st @ [robust_row h api np c st]"
  by (simp add: robust_process_def robust_row_def Let_def split_def robust_audience_keeps
      save_progress_def)

lemma robust_process_ok: "N \<noteq> 0 \<Longrightarrow> fst (robust_process h api np N i c st) = Inr ()"
  by (simp add: robust_process_def Let_def split_def)

lemma robust_process_zero:
  "fst (robust_process h api np 0 i c st) = Inl ZeroDivisionError"
  "disk (snd (robust_process h api np 0 i c st)) = disk st"
  by (simp_all add: robust_process_def Let_def split_def robust_audience_keeps)

lemma disk_robust_process:
  "N \<noteq> 0 \<Longrightarrow>
     disk (snd (robust_process h api np N i c st)) =
       (if int i mod N = 0
        then Some (write_csv (csv_data st @ [robust_row h api np c st]) fieldnames)
        else disk st)"
  by (simp add: robust_process_def robust_row_def Let_def split_def robust_audience_keeps
      save_progress_def)

lemma robust_rows_Cons:
  "N \<noteq> 0 \<Longrightarrow>
     robust_rows h api np N i (c # cs) st =
       robust_rows h api np N (Suc i) cs (snd (robust_process h api np N i c st))"
  using robust_process_ok [of N h api np i c st]
  by (cases "robust_process h api np N i c st") simp

lemma robust_rows_ok: "N \<noteq> 0 \<Longrightarrow> fst (robust_rows h api np N i cs st) = Inr ()"
  by (induction cs arbitrary: i st) (simp_all add: robust_rows_Cons del: robust_rows.simps(2))

lemma robust_rows_append:
  "N \<noteq> 0 \<Longrightarrow>
     robust_rows h api np N i (xs @ ys) st =
       robust_rows h api np N (i + length xs) ys (snd (robust_rows h api np N i xs st))"
  by (induction xs arbitrary: i st) (simp_all add: robust_rows_Cons del: robust_rows.simps(2))

lemma csv_data_robust_rows:
  "N \<noteq> 0 \<Longrightarrow>
     \<exists>rows. length rows = length cs \<and>
       csv_data (snd (robust_rows h api np N i cs st)) = csv_data st @ rows"
proof (induction cs arbitrary: i st)
  case Nil
  then show ?case by simp
next
  case (Cons c cs)
  let ?st = "snd (robust_process h api np N i c st)"
  from Cons.IH [OF Cons.prems, of "Suc i" ?st] obtain rows
    where "length rows = length cs"
      and "csv_data (snd (robust_rows h api np N (Suc i) cs ?st)) = csv_data ?st @ rows"
    by blast
  then have "length (robust_row h api np c st # rows) = length (c # cs) \<and>
      csv_data (snd (robust_rows h api np N i (c # cs) st)) =
        csv_data st @ robust_row h api np c st # rows"
    using Cons.prems
    by (simp add: robust_rows_Cons csv_data_robust_process del: robust_rows.simps(2))
  then show ?case by blast
qed

lemma checkpoint_robust_rows:
  assumes N: "N \<noteq> 0" and ne: "cs \<noteq> []" and m: "int (i + length cs - 1) mod N = 0"
  shows "disk (snd (robust_rows h api np N i cs st)) =
           Some (write_csv (csv_data (snd (robust_rows h api np N i cs st))) fieldnames)"
proof -
  from ne obtain xs c where cs: "cs = xs @ [c]" by (metis rev_exhaust)
  let ?st = "snd (robust_rows h api np N i xs st)"
  have run: "robust_rows h api np N i cs st =
      robust_rows h api np N (Suc (i + length xs)) [] (snd (robust_process h api np N (i + length xs) c ?st))"
    using N by (simp add: cs robust_rows_append robust_rows_Cons del: robust_rows.simps(2))
  from m have "int (i + length xs) mod N = 0" by (simp add: cs)
  with N show ?thesis
    by (simp add: run disk_robust_process csv_data_robust_process)
qed

lemma robust_generate_csv_run:
  assumes N: "N \<noteq> 0"
    and fetch: "robust_get_all_campaigns api w = Some (campaigns, w1)"
    and ne: "campaigns \<noteq> []"
  shows "robust_generate_csv h api dir out N w d =
           Some (Inr (Some out),
                 save_progress
                   (csv_data (snd (robust_rows h api (newsletters_path_of h dir) N 1 campaigns
                                     (loop_start w1 d))))
                   fieldnames
                   (snd (robust_rows h api (newsletters_path_of h dir) N 1 campaigns
                           (loop_start w1 d))))"
proof -
  let ?run = "robust_rows h api (newsletters_path_of h dir) N 1 campaigns (loop_start w1 d)"
  have gen: "robust_generate_csv h api dir out N w d =
      (case ?run of
         (Inl e, st') \<Rightarrow> Some (Inl e, st')
       | (Inr u, st') \<Rightarrow> Some (Inr (Some out), save_progress (csv_data st') fieldnames st'))"
    using fetch ne
    by (simp add: robust_generate_csv_def newsletters_path_of_def loop_start_def Let_def
        del: robust_rows.simps)
  from robust_rows_ok [OF N] have "fst ?run = Inr ()" .
  then obtain st' where r: "?run = (Inr (), st')" by (metis prod.collapse)
  show ?thesis
    unfolding gen r by simp
qed

text \<open>
  C2. In a run of the robust \<^verbatim>\<open>generate_csv\<close> with a checkpoint interval
  \<open>save_interval \<noteq> 0\<close> over a non-empty list of campaigns: the run returns the
  output path, the rows accumulated are one per campaign, and the output file
  finally holds the header line and all rows. For every \<open>i\<close> between 1 and
  the number of campaigns with \<open>i mod save_interval = 0\<close>, the state reached
  right after the \<open>i\<close>-th pass of the loop has the output file holding the
  header line and exactly the first \<open>i\<close> rows, whatever the file held before.
  (With \<open>save_interval = 0\<close> the test \<^verbatim>\<open>i % save_interval\<close> has no value: it
  raises.)
\<close>

theorem checkpoint_every_interval:
  assumes "save_interval \<noteq> 0"
    and "robust_get_all_campaigns api w = Some (campaigns, w1)"
    and "campaigns \<noteq> []"
  shows "\<exists>fin.
      robust_generate_csv h api newsletters_dir output_file save_interval w d =
        Some (Inr (Some output_file), fin) \<and>
      length (csv_data fin) = length campaigns \<and>
      disk fin = Some (map Str fieldnames # map (writerow fieldnames) (csv_data fin)) \<and>
      (\<forall>i. 1 \<le> i \<and> i \<le> length campaigns \<and> int i mod save_interval = 0 \<longrightarrow>
         disk (snd (robust_rows h api (newsletters_path_of h newsletters_dir) save_interval 1
                      (take i campaigns) (loop_start w1 d))) =
           Some (map Str fieldnames # map (writerow fieldnames) (take i (csv_data fin))))"
proof -
  let ?np = "newsletters_path_of h newsletters_dir"
  let ?st0 = "loop_start w1 d"
  let ?end = "snd (robust_rows h api ?np save_interval 1 campaigns ?st0)"
  let ?fin = "save_progress (csv_data ?end) fieldnames ?end"
  note N = assms(1)
  have run: "robust_generate_csv h api newsletters_dir output_file save_interval w d =
      Some (Inr (Some output_file), ?fin)"
    by (rule robust_generate_csv_run [OF assms])
  have data: "csv_data ?fin = csv_data ?end" by (simp add: save_progress_def)
  have start: "csv_data ?st0 = []" by (simp add: loop_start_def)
  from csv_data_robust_rows [OF N, of campaigns h api ?np 1 ?st0]
  have len: "length (csv_data ?fin) = length campaigns"
    unfolding data start by auto
  have final: "disk ?fin = Some (map Str fieldnames # map (writerow fieldnames) (csv_data ?fin))"
    by (simp add: save_progress_def write_csv_def)
  have checkpoint:
    "disk (snd (robust_rows h api ?np save_interval 1 (take i campaigns) ?st0)) =
       Some (map Str fieldnames # map (writerow fieldnames) (take i (csv_data ?fin)))"
    if i: "1 \<le> i" "i \<le> length campaigns" "int i mod save_interval = 0" for i
  proof -
    let ?sti = "snd (robust_rows h api ?np save_interval 1 (take i campaigns) ?st0)"
    from i assms(3) have ne: "take i campaigns \<noteq> []" by (cases campaigns) auto
    from i have li: "length (take i campaigns) = i" by simp
    from i have "int (1 + length (take i campaigns) - 1) mod save_interval = 0"
      by (simp add: li)
    from checkpoint_robust_rows [OF N ne this]
    have disk_i: "disk ?sti = Some (write_csv (csv_data ?sti) fieldnames)" .
    from csv_data_robust_rows [OF N, of "take i campaigns" h api ?np 1 ?st0]
    have len_i: "length (csv_data ?sti) = i"
      unfolding start li by auto
    have ap: "robust_rows h api ?np save_interval 1 (take i campaigns @ drop i campaigns) ?st0 =
        robust_rows h api ?np save_interval (1 + length (take i campaigns)) (drop i campaigns) ?sti"
      by (rule robust_rows_append [OF N])
    have split: "?end = snd (robust_rows h api ?np save_interval (1 + i) (drop i campaigns) ?sti)"
      using ap unfolding li append_take_drop_id by (rule arg_cong)
    from csv_data_robust_rows [OF N, of "drop i campaigns" h api ?np "1 + i" ?sti]
    obtain rows where "csv_data ?end = csv_data ?sti @ rows"
      unfolding split [symmetric] by blast
    with len_i have "take i (csv_data ?end) = csv_data ?sti"
      by simp
    then have tk: "take i (csv_data ?fin) = csv_data ?sti"
      unfolding data .
    show ?thesis
      unfolding tk disk_i write_csv_def ..
  qed
  show ?thesis
  proof (intro exI [of _ ?fin] conjI allI impI)
    show "robust_generate_csv h api newsletters_dir output_file save_interval w d =
        Some (Inr (Some output_file), ?fin)"
      by (rule run)
    show "length (csv_data ?fin) = length campaigns"
      by (rule len)
    show "disk ?fin = Some (map Str fieldnames # map (writerow fieldnames) (csv_data ?fin))"
      by (rule final)
    fix i
    assume "1 \<le> i \<and> i \<le> length campaigns \<and> int i mod save_interval = 0"
    then have "1 \<le> i" and "i \<le> length campaigns" and "int i mod save_interval = 0"
      by simp_all
    then show "disk (snd (robust_rows h api ?np save_interval 1 (take i campaigns) ?st0)) =
        Some (map Str fieldnames # map (writerow fieldnames) (take i (csv_data ?fin)))"
      by (rule checkpoint)
  qed
qed

lemmas run_defs =
  robust_process_def robust_audience_def robust_get_list_name_def robust_get_campaign_report_def
  basic_process_def basic_audience_def basic_get_list_name_def basic_get_campaign_report_def
  build_row_def find_local_file_def subject_of_def list_id_of_def rate_cell_def count_cell_def
  save_progress_def write_csv_def writerow_def fieldnames_def dict_get_def
  issue_def sleep_def loop_start_def newsletters_path_of_def range_3 Let_def
  sanitize_filename_def re_sub_illegal_def replace_spaces_def illegal_chars_def
  header_line_def hello_line_def news_line_def hello_line_no_report_def
  news_line_no_report_def world0_def world1_def

lemma fetch_api_ok: "robust_get_all_campaigns api_ok world0 = Some ([hello, news], world1)"
  unfolding robust_get_all_campaigns_def
  by (subst robust_campaigns_loop.simps)
    (simp add: api_ok_def world0_def world1_def issue_def dict_get_def Let_def)

lemma first_checkpoint_api_ok:
  "disk (snd (robust_rows host0 api_ok (newsletters_path_of host0 ''nowhere'') 1 1 [hello]
                (loop_start world1 None))) =
     Some [header_line, hello_line]"
  by (simp add: run_defs host0_def api_ok_def hello_def sample_report_def)

theorem checkpoint_every_interval_witness:
  "(1::int) \<noteq> 0 \<and>
   robust_get_all_campaigns api_ok world0 = Some ([hello, news], world1) \<and>
   [hello, news] \<noteq> [] \<and>
   (\<exists>fin.
      robust_generate_csv host0 api_ok ''nowhere'' ''out.csv'' 1 world0 None =
        Some (Inr (Some ''out.csv''), fin) \<and>
      length (csv_data fin) = 2 \<and>
      map Str fieldnames # map (writerow fieldnames) (take 1 (csv_data fin)) =
        [header_line, hello_line])"
proof -
  have h1: "(1::int) \<noteq> 0" by simp
  have h3: "[hello, news] \<noteq> []" by simp
  obtain fin where run: "robust_generate_csv host0 api_ok ''nowhere'' ''out.csv'' 1 world0 None =
        Some (Inr (Some ''out.csv''), fin)"
    and len: "length (csv_data fin) = length [hello, news]"
    and cp: "\<forall>i. 1 \<le> i \<and> i \<le> length [hello, news] \<and> int i mod 1 = 0 \<longrightarrow>
         disk (snd (robust_rows host0 api_ok (newsletters_path_of host0 ''nowhere'') 1 1
                      (take i [hello, news]) (loop_start world1 None))) =
           Some (map Str fieldnames # map (writerow fieldnames) (take i (csv_data fin)))"
    using checkpoint_every_interval [OF h1 fetch_api_ok h3, of host0 "''nowhere''" "''out.csv''" None]
    by (elim exE conjE)
  have i1: "1 \<le> (1::nat) \<and> 1 \<le> length [hello, news] \<and> int 1 mod 1 = 0" by simp
  have "disk (snd (robust_rows host0 api_ok (newsletters_path_of host0 ''nowhere'') 1 1
                      (take 1 [hello, news]) (loop_start world1 None))) =
           Some (map Str fieldnames # map (writerow fieldnames) (take 1 (csv_data fin)))"
    by (rule cp [rule_format, OF i1])
  moreover have "take 1 [hello, news] = [hello]" by simp
  ultimately have content: "map Str fieldnames # map (writerow fieldnames) (take 1 (csv_data fin)) =
        [header_line, hello_line]"
    using first_checkpoint_api_ok by (simp only: option.inject)
  from len have len2: "length (csv_data fin) = 2" by simp
  show ?thesis
    by (intro conjI exI [of _ fin] h1 h3 fetch_api_ok run len2 content)
qed

section \<open>A campaign without a report\<close>

lemma report_not_found:
  "reports_ep api (clock w) c = Reply 404 body \<Longrightarrow>
     robust_get_campaign_report api c w = (None, issue (GetReport c) w)"
  by (simp add: robust_get_campaign_report_def range_3 Let_def)

lemma metrics_without_report:
  "writerow metric_fields (build_row h np campaign audience None) =
     [Num 0, Num 0, Str ''0.00'', Num 0, Str ''0.00'', Num 0, Num 0, Num 0]"
  by (simp add: writerow_def metric_fields_def build_row_def rate_cell_def dict_get_def Let_def)

lemma line_without_report:
  "take 8 (drop 5 (writerow fieldnames (build_row h np campaign audience None))) =
     [Num 0, Num 0, Str ''0.00'', Num 0, Str ''0.00'', Num 0, Num 0, Num 0]"
  by (simp add: writerow_def fieldnames_def build_row_def rate_cell_def dict_get_def Let_def)

lemma robust_row_not_found:
  assumes "reports_ep api (clock (net (snd (robust_audience api campaign st))))
             (dict_get (cid campaign) ''N/A'') = Reply 404 body"
  shows "robust_row h api np campaign st =
           build_row h np campaign (fst (robust_audience api campaign st)) None"
  using report_not_found [OF assms] by (simp add: robust_row_def split_def Let_def)

text \<open>
  C4. A report request answered with status 404 is not an error: it is not
  retried, nothing is raised, and the campaign has no report. The row built
  without a report shows every numeric metric field as zero: the six count
  fields (Emails Sent, Unique Opens, Unique Clicks, Hard Bounces, Soft
  Bounces, Unsubscribes) are the integer 0, and the two rate fields (Open
  Rate (%), Click Rate (%)) are zero in the two-decimal format in which rates
  are always written, \<^verbatim>\<open>0.00\<close>. These are the columns 6 to 13 of the line
  written to the CSV file. The pass of the robust loop whose report request
  gets a 404 appends exactly this row.
\<close>

theorem report_not_found_zero_metrics:
  "(reports_ep api (clock w) c = Reply 404 body \<longrightarrow>
      robust_get_campaign_report api c w = (None, issue (GetReport c) w)) \<and>
   writerow metric_fields (build_row h np campaign audience None) =
     [Num 0, Num 0, Str ''0.00'', Num 0, Str ''0.00'', Num 0, Num 0, Num 0] \<and>
   take 8 (drop 5 (writerow fieldnames (build_row h np campaign audience None))) =
     [Num 0, Num 0, Str ''0.00'', Num 0, Str ''0.00'', Num 0, Num 0, Num 0] \<and>
   (reports_ep api (clock (net (snd (robust_audience api campaign st))))
      (dict_get (cid campaign) ''N/A'') = Reply 404 body \<longrightarrow>
      csv_data (snd (robust_process h api np N i campaign st)) =
        csv_data st @ [build_row h np campaign (fst (robust_audience api campaign st)) None])"
proof -
  have "csv_data (snd (robust_process h api np N i campaign st)) =
        csv_data st @ [build_row h np campaign (fst (robust_audience api campaign st)) None]"
    if "reports_ep api (clock (net (snd (robust_audience api campaign st))))
          (dict_get (cid campaign) ''N/A'') = Reply 404 body"
    using robust_row_not_found [OF that] by (simp add: csv_data_robust_process)
  then show ?thesis
    using report_not_found [of api w c body] metrics_without_report [of h np campaign audience]
      line_without_report [of h np campaign audience]
    by (intro conjI impI)
qed

lemma fetch_api_new: "robust_get_all_campaigns api_new world0 = Some ([hello, news], world1)"
  unfolding robust_get_all_campaigns_def
  by (subst robust_campaigns_loop.simps)
    (simp add: api_new_def world0_def world1_def issue_def dict_get_def Let_def)

theorem report_not_found_zero_metrics_witness:
  "reports_ep api_new (clock (net (snd (robust_audience api_new hello (loop_start world1 None)))))
     (dict_get (cid hello) ''N/A'') = Reply 404 sample_report \<and>
   map (writerow fieldnames)
     (csv_data (snd (robust_process host0 api_new None 50 1 hello (loop_start world1 None)))) =
     [hello_line_no_report]"
proof -
  have h: "reports_ep api_new (clock (net (snd (robust_audience api_new hello (loop_start world1 None)))))
     (dict_get (cid hello) ''N/A'') = Reply 404 sample_report"
    by (simp add: run_defs api_new_def hello_def)
  from report_not_found_zero_metrics [of api_new world0 "''c1''" sample_report host0 None hello
      "''Friends''" "loop_start world1 None" 50 1] h
  have "csv_data (snd (robust_process host0 api_new None 50 1 hello (loop_start world1 None))) =
      csv_data (loop_start world1 None) @
        [build_row host0 None hello (fst (robust_audience api_new hello (loop_start world1 None))) None]"
    by (elim conjE impE) (simp_all add: api_new_def)
  then have "map (writerow fieldnames)
     (csv_data (snd (robust_process host0 api_new None 50 1 hello (loop_start world1 None)))) =
     [hello_line_no_report]"
    by (simp add: run_defs api_new_def host0_def hello_def)
  with h show ?thesis by (intro conjI)
qed

text \<open>
  The CSV file of a sample run in which no campaign has a report: in both
  lines the count columns hold 0 and the two rate columns hold \<^verbatim>\<open>0.00\<close>.
\<close>

lemma no_report_run_csv:
  "reports_ep api_new 3 ''c1'' = Reply 404 sample_report \<and>
   reports_ep api_new 4 ''c2'' = Reply 404 sample_report \<and>
   robust_generate_csv host0 api_new ''nowhere'' ''out.csv'' 50 world0 None \<noteq> None \<and>
   disk (snd (the (robust_generate_csv host0 api_new ''nowhere'' ''out.csv'' 50 world0 None))) =
     Some [header_line, hello_line_no_report, news_line_no_report] \<and>
   hello_line_no_report ! 7 = Str ''0.00'' \<and> hello_line_no_report ! 9 = Str ''0.00'' \<and>
   header_line ! 7 = Str ''Open Rate (%)'' \<and> header_line ! 9 = Str ''Click Rate (%)''"
proof -
  have run: "robust_generate_csv host0 api_new ''nowhere'' ''out.csv'' 50 world0 None =
      Some (Inr (Some ''out.csv''),
            save_progress
              (csv_data (snd (robust_rows host0 api_new (newsletters_path_of host0 ''nowhere'') 50 1
                                [hello, news] (loop_start world1 None))))
              fieldnames
              (snd (robust_rows host0 api_new (newsletters_path_of host0 ''nowhere'') 50 1
                      [hello, news] (loop_start world1 None))))"
    by (rule robust_generate_csv_run [OF _ fetch_api_new]) simp_all
  have content: "disk (snd (the (robust_generate_csv host0 api_new ''nowhere'' ''out.csv'' 50 world0 None))) =
     Some [header_line, hello_line_no_report, news_line_no_report]"
    unfolding run
    by (simp add: run_defs api_new_def host0_def hello_def news_def)
  have cells: "hello_line_no_report ! 7 = Str ''0.00''" "hello_line_no_report ! 9 = Str ''0.00''"
      "header_line ! 7 = Str ''Open Rate (%)''" "header_line ! 9 = Str ''Click Rate (%)''"
    by (simp_all add: hello_line_no_report_def header_line_def)
  have replies: "reports_ep api_new 3 ''c1'' = Reply 404 sample_report"
      "reports_ep api_new 4 ''c2'' = Reply 404 sample_report"
    by (simp_all add: api_new_def)
  have returns: "robust_generate_csv host0 api_new ''nowhere'' ''out.csv'' 50 world0 None \<noteq> None"
    unfolding run by simp
  from replies returns content cells show ?thesis by (intro conjI)
qed

section \<open>Campaign IDs of the rows\<close>

lemma id_of_build_row:
  "map_of (build_row h np c audience report) ''Campaign ID'' = id_cell c"
  by (cases report) (simp_all add: build_row_def id_cell_def Let_def)

lemma id_of_robust_row: "map_of (robust_row h api np c st) ''Campaign ID'' = id_cell c"
  by (simp add: robust_row_def split_def Let_def id_of_build_row)

lemma ids_robust_process:
  "campaign_ids (csv_data (snd (robust_process h api np N i c st))) =
     campaign_ids (csv_data st) @ [id_cell c]"
  by (simp add: csv_data_robust_process campaign_ids_def id_of_robust_row)

lemma ids_robust_rows:
  "\<exists>m. campaign_ids (csv_data (snd (robust_rows h api np N i cs st))) =
         campaign_ids (csv_data st) @ take m (map id_cell cs)"
proof (induction cs arbitrary: i st)
  case Nil
  then show ?case by simp
next
  case (Cons c cs)
  obtain r st' where p: "robust_process h api np N i c st = (r, st')"
    by (cases "robust_process h api np N i c st")
  from ids_robust_process [of h api np N i c st] p
  have ids: "campaign_ids (csv_data st') = campaign_ids (csv_data st) @ [id_cell c]"
    by simp
  show ?case
  proof (cases r)
    case (Inl e)
    with p ids have "campaign_ids (csv_data (snd (robust_rows h api np N i (c # cs) st))) =
        campaign_ids (csv_data st) @ take 1 (map id_cell (c # cs))"
      by simp
    then show ?thesis by blast
  next
    case (Inr u)
    from Cons.IH [of "Suc i" st'] obtain m
      where "campaign_ids (csv_data (snd (robust_rows h api np N (Suc i) cs st'))) =
          campaign_ids (csv_data st') @ take m (map id_cell cs)"
      by blast
    with p ids Inr have "campaign_ids (csv_data (snd (robust_rows h api np N i (c # cs) st))) =
        campaign_ids (csv_data st) @ take (Suc m) (map id_cell (c # cs))"
      by simp
    then show ?thesis by blast
  qed
qed

lemma ids_robust_rows_all:
  "N \<noteq> 0 \<Longrightarrow>
     campaign_ids (csv_data (snd (robust_rows h api np N i cs st))) =
       campaign_ids (csv_data st) @ map id_cell cs"
  by (induction cs arbitrary: i st)
    (simp_all add: robust_rows_Cons ids_robust_process del: robust_rows.simps(2))

lemma robust_generate_csv_cases:
  assumes "robust_get_all_campaigns api w = Some (campaigns, w1)"
  shows "\<exists>res fin.
      robust_generate_csv h api dir out N w d = Some (res, fin) \<and>
      (csv_data fin = [] \<or>
       csv_data fin =
         csv_data (snd (robust_rows h api (newsletters_path_of h dir) N 1 campaigns
                          (loop_start w1 d))))"
proof (cases "campaigns = []")
  case True
  with assms have "robust_generate_csv h api dir out N w d = Some (Inr None, loop_start w1 d)"
    by (simp add: robust_generate_csv_def loop_start_def Let_def)
  moreover have "csv_data (loop_start w1 d) = []" by (simp add: loop_start_def)
  ultimately show ?thesis by blast
next
  case False
  let ?run = "robust_rows h api (newsletters_path_of h dir) N 1 campaigns (loop_start w1 d)"
  have gen: "robust_generate_csv h api dir out N w d =
      (case ?run of
         (Inl e, st') \<Rightarrow> Some (Inl e, st')
       | (Inr u, st') \<Rightarrow> Some (Inr (Some out), save_progress (csv_data st') fieldnames st'))"
    using assms False
    by (simp add: robust_generate_csv_def newsletters_path_of_def loop_start_def Let_def
        del: robust_rows.simps)
  obtain r st' where run: "?run = (r, st')" by (cases ?run)
  show ?thesis
  proof (cases r)
    case (Inl e)
    with run have "robust_generate_csv h api dir out N w d = Some (Inl e, st')"
      unfolding gen by simp
    moreover from run have "csv_data st' = csv_data (snd ?run)" by simp
    ultimately show ?thesis by blast
  next
    case (Inr u)
    with run have "robust_generate_csv h api dir out N w d =
        Some (Inr (Some out), save_progress (csv_data st') fieldnames st')"
      unfolding gen by simp
    moreover from run have "csv_data (save_progress (csv_data st') fieldnames st') =
        csv_data (snd ?run)"
      by (simp add: save_progress_def)
    ultimately show ?thesis by blast
  qed
qed

text \<open>
  C9, as the code has it. \<^verbatim>\<open>generate_csv\<close> builds one row per campaign that
  the listing fetch returned, in the same order, and gives it the campaign's
  \<^verbatim>\<open>id\<close> (or \<^verbatim>\<open>N/A\<close> when the campaign has none); it removes no duplicates.
  So the Campaign IDs of the rows are unique when the ids of the fetched
  campaigns are.
\<close>

theorem campaign_ids_follow_listing:
  assumes "robust_get_all_campaigns api w = Some (campaigns, w1)"
  shows "\<exists>res fin.
      robust_generate_csv h api newsletters_dir output_file save_interval w d = Some (res, fin) \<and>
      (\<exists>m. campaign_ids (csv_data fin) = take m (map id_cell campaigns)) \<and>
      (save_interval \<noteq> 0 \<longrightarrow> campaign_ids (csv_data fin) = map id_cell campaigns) \<and>
      (distinct (map id_cell campaigns) \<longrightarrow> distinct (campaign_ids (csv_data fin)))"
proof -
  let ?end = "snd (robust_rows h api (newsletters_path_of h newsletters_dir) save_interval 1
                     campaigns (loop_start w1 d))"
  from robust_generate_csv_cases [OF assms, of h newsletters_dir output_file save_interval d]
  obtain res fin
    where run: "robust_generate_csv h api newsletters_dir output_file save_interval w d =
        Some (res, fin)"
      and data: "csv_data fin = [] \<or> csv_data fin = csv_data ?end"
    by blast
  have start: "campaign_ids (csv_data (loop_start w1 d)) = []"
    by (simp add: loop_start_def campaign_ids_def)
  from ids_robust_rows [of h api "newsletters_path_of h newsletters_dir" save_interval 1
      campaigns "loop_start w1 d"]
  obtain m where m: "campaign_ids (csv_data ?end) = take m (map id_cell campaigns)"
    unfolding start by auto
  have prefix: "\<exists>m. campaign_ids (csv_data fin) = take m (map id_cell campaigns)"
  proof (cases "csv_data fin = []")
    case True
    then have "campaign_ids (csv_data fin) = take 0 (map id_cell campaigns)"
      by (simp add: campaign_ids_def)
    then show ?thesis by blast
  next
    case False
    with data m show ?thesis by auto
  qed
  have all: "campaign_ids (csv_data fin) = map id_cell campaigns" if N: "save_interval \<noteq> 0"
  proof (cases "campaigns = []")
    case True
    with prefix show ?thesis by simp
  next
    case False
    from robust_generate_csv_run [OF N assms False, of h newsletters_dir output_file d] run
    have "csv_data fin = csv_data ?end"
      by (simp add: save_progress_def)
    with ids_robust_rows_all [OF N, of h api "newsletters_path_of h newsletters_dir" 1
        campaigns "loop_start w1 d"] start
    show ?thesis by simp
  qed
  have uniq: "distinct (campaign_ids (csv_data fin))" if "distinct (map id_cell campaigns)"
    using prefix that by (auto intro: distinct_take)
  from run prefix all uniq show ?thesis by blast
qed

lemma fetch_api_dup: "robust_get_all_campaigns api_dup world0 = Some ([hello, hello], world1)"
  unfolding robust_get_all_campaigns_def
  by (subst robust_campaigns_loop.simps)
    (simp add: api_dup_def world0_def world1_def issue_def dict_get_def Let_def)

theorem campaign_ids_follow_listing_witness:
  "robust_get_all_campaigns api_ok world0 = Some ([hello, news], world1) \<and>
   (50::int) \<noteq> 0 \<and>
   distinct (map id_cell [hello, news]) \<and>
   (\<exists>res fin.
      robust_generate_csv host0 api_ok ''nowhere'' ''out.csv'' 50 world0 None = Some (res, fin) \<and>
      campaign_ids (csv_data fin) = [Some (Str ''c1''), Some (Str ''c2'')] \<and>
      distinct (campaign_ids (csv_data fin)))"
proof -
  have N: "(50::int) \<noteq> 0" by simp
  have ids: "map id_cell [hello, news] = [Some (Str ''c1''), Some (Str ''c2'')]"
    by (simp add: id_cell_def hello_def news_def dict_get_def)
  have d: "distinct (map id_cell [hello, news])"
    unfolding ids by simp
  from campaign_ids_follow_listing [OF fetch_api_ok, of host0 "''nowhere''" "''out.csv''" 50 None]
  obtain res fin
    where run: "robust_generate_csv host0 api_ok ''nowhere'' ''out.csv'' 50 world0 None =
        Some (res, fin)"
      and all: "(50::int) \<noteq> 0 \<longrightarrow> campaign_ids (csv_data fin) = map id_cell [hello, news]"
      and uniq: "distinct (map id_cell [hello, news]) \<longrightarrow> distinct (campaign_ids (csv_data fin))"
    by (elim exE conjE)
  from all N have a: "campaign_ids (csv_data fin) = [Some (Str ''c1''), Some (Str ''c2'')]"
    unfolding ids by (elim impE)
  from uniq d have u: "distinct (campaign_ids (csv_data fin))"
    by (elim impE)
  show ?thesis
    by (intro conjI exI [of _ res] exI [of _ fin] fetch_api_ok N d run a u)
qed

text \<open>
  C9 fails when the listing returns a campaign twice: both rows carry its
  id.
\<close>

theorem campaign_ids_follow_listing_counterexample:
  "robust_get_all_campaigns api_dup world0 = Some ([hello, hello], world1) \<and>
   robust_generate_csv host0 api_dup ''nowhere'' ''out.csv'' 50 world0 None \<noteq> None \<and>
   campaign_ids
     (csv_data (snd (the (robust_generate_csv host0 api_dup ''nowhere'' ''out.csv'' 50 world0 None)))) =
     [Some (Str ''c1''), Some (Str ''c1'')] \<and>
   \<not> distinct
     (campaign_ids
        (csv_data (snd (the (robust_generate_csv host0 api_dup ''nowhere'' ''out.csv'' 50 world0 None)))))"
proof -
  have run: "robust_generate_csv host0 api_dup ''nowhere'' ''out.csv'' 50 world0 None =
      Some (Inr (Some ''out.csv''),
            save_progress
              (csv_data (snd (robust_rows host0 api_dup (newsletters_path_of host0 ''nowhere'') 50 1
                                [hello, hello] (loop_start world1 None))))
              fieldnames
              (snd (robust_rows host0 api_dup (newsletters_path_of host0 ''nowhere'') 50 1
                      [hello, hello] (loop_start world1 None))))"
    by (rule robust_generate_csv_run [OF _ fetch_api_dup]) simp_all
  have ids: "campaign_ids
     (csv_data (snd (the (robust_generate_csv host0 api_dup ''nowhere'' ''out.csv'' 50 world0 None)))) =
     [Some (Str ''c1''), Some (Str ''c1'')]"
    unfolding run
    using ids_robust_rows_all [of 50 host0 api_dup "newsletters_path_of host0 ''nowhere''" 1
        "[hello, hello]" "loop_start world1 None"]
    by (simp add: save_progress_def loop_start_def campaign_ids_def id_cell_def hello_def
        dict_get_def del: robust_rows.simps)
  have returns: "robust_generate_csv host0 api_dup ''nowhere'' ''out.csv'' 50 world0 None \<noteq> None"
    unfolding run by simp
  have dup: "\<not> distinct
     (campaign_ids
        (csv_data (snd (the (robust_generate_csv host0 api_dup ''nowhere'' ''out.csv'' 50 world0 None)))))"
    unfolding ids by simp
  from fetch_api_dup returns ids dup show ?thesis by (intro conjI)
qed

section \<open>The audience cache\<close>























lemma fetch_basic_api_ok:
  "basic_get_all_campaigns api_ok world0 = Some (Inr [hello, news], world1)"
  unfolding basic_get_all_campaigns_def
  by (subst basic_campaigns_loop.simps)
    (simp add: api_ok_def world0_def world1_def issue_def dict_get_def Let_def)



lemma basic_generate_csv_unfold:
  assumes "basic_get_all_campaigns api w = Some (Inr campaigns, w1)" and "campaigns \<noteq> []"
  shows "basic_generate_csv h api dir out w d =
           (case basic_rows h api (newsletters_path_of h dir) campaigns (loop_start w1 d) of
              (Inl e, st') \<Rightarrow> Some (Inl e, st')
            | (Inr u, st') \<Rightarrow>
                Some (Inr (Some out), st'\<lparr>disk := Some (write_csv (csv_data st') fieldnames)\<rparr>))"
  using assms
  by (simp add: basic_generate_csv_def newsletters_path_of_def loop_start_def Let_def
      del: basic_rows.simps)

lemma basic_run_api_ok:
  "basic_generate_csv host0 api_ok ''nowhere'' ''out.csv'' world0 None =
     (case basic_rows host0 api_ok (newsletters_path_of host0 ''nowhere'') [hello, news]
             (loop_start world1 None) of
        (Inl e, st') \<Rightarrow> Some (Inl e, st')
      | (Inr u, st') \<Rightarrow>
          Some (Inr (Some ''out.csv''), st'\<lparr>disk := Some (write_csv (csv_data st') fieldnames)\<rparr>))"
  by (rule basic_generate_csv_unfold [OF fetch_basic_api_ok]) simp



text \<open>
  A sample run of the robust script in which the request for the list times
  out once: the single call of \<^verbatim>\<open>get_list_name\<close> repeats its request after the
  sleep, and the second campaign, which refers to the same list, is answered
  from the cache.
\<close>

lemma list_timeout_run_trace:
  "lists_ep api_new 1 ''L1'' = Timeout \<and>
   robust_generate_csv host0 api_new ''nowhere'' ''out.csv'' 50 world0 None \<noteq> None \<and>
   net (snd (the (robust_generate_csv host0 api_new ''nowhere'' ''out.csv'' 50 world0 None))) =
     \<lparr>clock = 5,
      trace = [Request (GetCampaigns 1000 0), Request (GetList ''L1''), Sleep 2,
               Request (GetList ''L1''), Request (GetReport ''c1''), Request (GetReport ''c2'')]\<rparr> \<and>
   list_requests ''L1''
     (net (snd (the (robust_generate_csv host0 api_new ''nowhere'' ''out.csv'' 50 world0 None)))) = 2 \<and>
   list_requests ''L1'' world0 = 0"
proof -
  let ?R = "robust_generate_csv host0 api_new ''nowhere'' ''out.csv'' 50 world0 None"
  have run: "?R =
      Some (Inr (Some ''out.csv''),
            save_progress
              (csv_data (snd (robust_rows host0 api_new (newsletters_path_of host0 ''nowhere'') 50 1
                                [hello, news] (loop_start world1 None))))
              fieldnames
              (snd (robust_rows host0 api_new (newsletters_path_of host0 ''nowhere'') 50 1
                      [hello, news] (loop_start world1 None))))"
    by (rule robust_generate_csv_run [OF _ fetch_api_new]) simp_all
  have n: "net (snd (the ?R)) =
     \<lparr>clock = 5,
      trace = [Request (GetCampaigns 1000 0), Request (GetList ''L1''), Sleep 2,
               Request (GetList ''L1''), Request (GetReport ''c1''), Request (GetReport ''c2'')]\<rparr>"
    unfolding run
    by (simp add: run_defs api_new_def host0_def hello_def news_def)
  have two: "list_requests ''L1'' (net (snd (the ?R))) = 2"
    unfolding n by (simp add: list_requests_def)
  have zero: "list_requests ''L1'' world0 = 0"
    by (simp add: list_requests_def world0_def)
  have t: "lists_ep api_new 1 ''L1'' = Timeout" by (simp add: api_new_def)
  have r: "?R \<noteq> None" unfolding run by simp
  show ?thesis by (intro conjI t r n two zero)
qed

section \<open>The two scripts compared\<close>

lemma all_ok_replies:
  assumes "all_ok api"
  shows "campaigns_ep api n count offset \<noteq> Timeout" "campaigns_ep api n count offset \<noteq> Failure"
    and "\<exists>body. reports_ep api n c = Reply 200 body"
    and "\<exists>body. lists_ep api n l = Reply 200 body"
proof -
  from assms obtain body where "campaigns_ep api n count offset = Reply 200 body"
    unfolding all_ok_def by blast
  then show "campaigns_ep api n count offset \<noteq> Timeout" "campaigns_ep api n count offset \<noteq> Failure"
    by simp_all
  from assms show "\<exists>body. reports_ep api n c = Reply 200 body"
    unfolding all_ok_def by blast
  from assms show "\<exists>body. lists_ep api n l = Reply 200 body"
    unfolding all_ok_def by blast
qed

lemma robust_loop_to_basic:
  assumes "robust_campaigns_loop api count campaigns offset w = Some y"
  shows "all_ok api \<longrightarrow>
           basic_campaigns_loop api count campaigns offset w = Some (Inr (fst y), snd y)"
  using assms
proof (induction rule: robust_campaigns_loop.raw_induct [rotated 1, consumes 1])
  case (1 loop api count campaigns offset w y)
  show ?case
  proof
    assume ok: "all_ok api"
    let ?w' = "issue (GetCampaigns count offset) w"
    from all_ok_replies(1,2) [OF ok, of "clock w" count offset]
    obtain status body where reply: "campaigns_ep api (clock w) count offset = Reply status body"
      by (cases "campaigns_ep api (clock w) count offset") auto
    show "basic_campaigns_loop api count campaigns offset w = Some (Inr (fst y), snd y)"
    proof (cases "status = 200 \<and> dict_get body [] \<noteq> [] \<and> \<not> length (dict_get body []) < count")
      case True
      with reply "1.hyps"
      have "loop api count (campaigns @ dict_get body []) (offset + count) ?w' = Some y"
        by (simp add: Let_def)
      from "1.IH" [OF this] ok
      have "basic_campaigns_loop api count (campaigns @ dict_get body []) (offset + count) ?w' =
          Some (Inr (fst y), snd y)"
        by blast
      with True reply show ?thesis
        by (subst basic_campaigns_loop.simps) (simp add: Let_def)
    next
      case False
      with reply "1.hyps" show ?thesis
        by (subst basic_campaigns_loop.simps) (auto simp: Let_def split: if_splits)
    qed
  qed
qed

lemma basic_loop_to_robust:
  assumes "basic_campaigns_loop api count campaigns offset w = Some y"
  shows "all_ok api \<longrightarrow>
           (\<exists>cs. fst y = Inr cs \<and>
                 robust_campaigns_loop api count campaigns offset w = Some (cs, snd y))"
  using assms
proof (induction rule: basic_campaigns_loop.raw_induct [rotated 1, consumes 1])
  case (1 loop api count campaigns offset w y)
  show ?case
  proof
    assume ok: "all_ok api"
    let ?w' = "issue (GetCampaigns count offset) w"
    from all_ok_replies(1,2) [OF ok, of "clock w" count offset]
    obtain status body where reply: "campaigns_ep api (clock w) count offset = Reply status body"
      by (cases "campaigns_ep api (clock w) count offset") auto
    show "\<exists>cs. fst y = Inr cs \<and>
        robust_campaigns_loop api count campaigns offset w = Some (cs, snd y)"
    proof (cases "status = 200 \<and> dict_get body [] \<noteq> [] \<and> \<not> length (dict_get body []) < count")
      case True
      with reply "1.hyps"
      have "loop api count (campaigns @ dict_get body []) (offset + count) ?w' = Some y"
        by (simp add: Let_def)
      from "1.IH" [OF this] ok obtain cs
        where "fst y = Inr cs"
          and "robust_campaigns_loop api count (campaigns @ dict_get body []) (offset + count) ?w' =
            Some (cs, snd y)"
        by blast
      with True reply show ?thesis
        by (subst robust_campaigns_loop.simps) (simp add: Let_def)
    next
      case False
      with reply "1.hyps" show ?thesis
        by (subst robust_campaigns_loop.simps) (auto simp: Let_def split: if_splits)
    qed
  qed
qed

lemma fetch_agree:
  assumes ok: "all_ok api"
  shows "basic_get_all_campaigns api w =
           (case robust_get_all_campaigns api w of
              None \<Rightarrow> None
            | Some (cs, w') \<Rightarrow> Some (Inr cs, w'))"
proof (cases "robust_get_all_campaigns api w")
  case None
  show ?thesis
  proof (cases "basic_get_all_campaigns api w")
    case None
    with \<open>robust_get_all_campaigns api w = None\<close> show ?thesis by simp
  next
    case (Some y)
    with basic_loop_to_robust [of api 1000 "[]" 0 w y] ok None show ?thesis
      by (simp add: basic_get_all_campaigns_def robust_get_all_campaigns_def)
  qed
next
  case (Some y)
  with robust_loop_to_basic [of api 1000 "[]" 0 w y] ok show ?thesis
    by (simp add: basic_get_all_campaigns_def robust_get_all_campaigns_def split_def)
qed

lemma list_name_agree:
  assumes "all_ok api"
  shows "robust_get_list_name api l w = (name_of_reply (lists_ep api (clock w) l), issue (GetList l) w)"
    and "basic_get_list_name api l w =
           (Inr (name_of_reply (lists_ep api (clock w) l)), issue (GetList l) w)"
proof -
  from all_ok_replies(4) [OF assms, of "clock w" l]
  obtain body where r: "lists_ep api (clock w) l = Reply 200 body" by blast
  then show "robust_get_list_name api l w =
      (name_of_reply (lists_ep api (clock w) l), issue (GetList l) w)"
    by (simp add: list_fetch_cases)
  from r show "basic_get_list_name api l w =
      (Inr (name_of_reply (lists_ep api (clock w) l)), issue (GetList l) w)"
    by (simp add: basic_get_list_name_def name_of_reply_def Let_def)
qed

lemma report_agree:
  assumes "all_ok api"
  shows "robust_get_campaign_report api c w =
           (report_of_reply (reports_ep api (clock w) c), issue (GetReport c) w)"
    and "basic_get_campaign_report api c w =
           (Inr (report_of_reply (reports_ep api (clock w) c)), issue (GetReport c) w)"
proof -
  from all_ok_replies(3) [OF assms, of "clock w" c]
  obtain body where r: "reports_ep api (clock w) c = Reply 200 body" by blast
  then show "robust_get_campaign_report api c w =
      (report_of_reply (reports_ep api (clock w) c), issue (GetReport c) w)"
    by (simp add: report_fetch_cases)
  from r show "basic_get_campaign_report api c w =
      (Inr (report_of_reply (reports_ep api (clock w) c)), issue (GetReport c) w)"
    by (simp add: basic_get_campaign_report_def report_of_reply_def Let_def)
qed

lemma audience_agree:
  assumes ok: "all_ok api" and same: "same_progress st st'"
  shows "\<exists>a s s'. robust_audience api c st = (a, s) \<and> basic_audience api c st' = (Inr a, s') \<and>
           same_progress s s'"
  using same
  by (auto simp: robust_audience_def basic_audience_def Let_def list_name_agree [OF ok]
      same_progress_def issue_def split: option.splits)

lemma process_agree:
  assumes ok: "all_ok api" and N: "N \<noteq> 0" and same: "same_progress st st'"
  shows "\<exists>s s'. robust_process h api np N i c st = (Inr (), s) \<and>
           basic_process h api np c st' = (Inr (), s') \<and> same_progress s s'"
proof -
  from audience_agree [OF ok same, of c] obtain a s1 s1'
    where r: "robust_audience api c st = (a, s1)"
      and b: "basic_audience api c st' = (Inr a, s1')"
      and s1: "same_progress s1 s1'"
    by blast
  from s1 have clk: "clock (net s1) = clock (net s1')" by (simp add: same_progress_def)
  from r b s1 N show ?thesis
    by (simp add: robust_process_def basic_process_def Let_def report_agree [OF ok] clk
        same_progress_def save_progress_def issue_def sleep_def)
qed

lemma rows_agree:
  assumes ok: "all_ok api" and N: "N \<noteq> 0"
  shows "same_progress st st' \<Longrightarrow>
           \<exists>s s'. robust_rows h api np N i cs st = (Inr (), s) \<and>
                  basic_rows h api np cs st' = (Inr (), s') \<and> same_progress s s'"
proof (induction cs arbitrary: i st st')
  case Nil
  then show ?case by simp
next
  case (Cons c cs)
  from process_agree [OF ok N Cons.prems, of h np i c] obtain s s'
    where r: "robust_process h api np N i c st = (Inr (), s)"
      and b: "basic_process h api np c st' = (Inr (), s')"
      and s: "same_progress s s'"
    by blast
  from Cons.IH [OF s, of "Suc i"] r b show ?case by simp
qed

text \<open>
  With a checkpoint interval other than 0 and a remote API on which every
  request succeeds, the two scripts end in the same way: both never return,
  or both return with the same value and the same contents of the output
  file.
\<close>

lemma generators_agree:
  assumes ok: "all_ok api" and N: "save_interval \<noteq> 0"
  shows "map_option (\<lambda>(res, fin). (res, disk fin))
           (robust_generate_csv h api newsletters_dir output_file save_interval w d) =
         map_option (\<lambda>(res, fin). (res, disk fin))
           (basic_generate_csv h api newsletters_dir output_file w d)"
proof (cases "robust_get_all_campaigns api w")
  case None
  with fetch_agree [OF ok, of w] show ?thesis
    by (simp add: robust_generate_csv_def basic_generate_csv_def Let_def)
next
  case (Some y)
  obtain campaigns w1 where y: "y = (campaigns, w1)" by (cases y)
  with Some fetch_agree [OF ok, of w]
  have r: "robust_get_all_campaigns api w = Some (campaigns, w1)"
    and b: "basic_get_all_campaigns api w = Some (Inr campaigns, w1)"
    by simp_all
  show ?thesis
  proof (cases "campaigns = []")
    case True
    with r b show ?thesis
      by (simp add: robust_generate_csv_def basic_generate_csv_def Let_def)
  next
    case False
    have "same_progress (loop_start w1 d) (loop_start w1 d)"
      by (simp add: same_progress_def)
    from rows_agree [OF ok N this, of h "newsletters_path_of h newsletters_dir" 1 campaigns]
    obtain s s'
      where rr: "robust_rows h api (newsletters_path_of h newsletters_dir) save_interval 1 campaigns
                   (loop_start w1 d) = (Inr (), s)"
        and br: "basic_rows h api (newsletters_path_of h newsletters_dir) campaigns
                   (loop_start w1 d) = (Inr (), s')"
        and s: "same_progress s s'"
      by blast
    from rr have "snd (robust_rows h api (newsletters_path_of h newsletters_dir) save_interval 1
        campaigns (loop_start w1 d)) = s"
      by simp
    with robust_generate_csv_run [OF N r False, of h newsletters_dir output_file d]
    have R: "robust_generate_csv h api newsletters_dir output_file save_interval w d =
        Some (Inr (Some output_file), save_progress (csv_data s) fieldnames s)"
      by simp
    from basic_generate_csv_unfold [OF b False, of h newsletters_dir output_file d] br
    have B: "basic_generate_csv h api newsletters_dir output_file w d =
        Some (Inr (Some output_file), s'\<lparr>disk := Some (write_csv (csv_data s') fieldnames)\<rparr>)"
      by simp
    from s show ?thesis
      unfolding R B by (simp add: save_progress_def same_progress_def)
  qed
qed

lemma robust_generate_csv_unfold:
  assumes "robust_get_all_campaigns api w = Some (campaigns, w1)" and "campaigns \<noteq> []"
  shows "robust_generate_csv h api dir out N w d =
           (case robust_rows h api (newsletters_path_of h dir) N 1 campaigns (loop_start w1 d) of
              (Inl e, st') \<Rightarrow> Some (Inl e, st')
            | (Inr u, st') \<Rightarrow>
                Some (Inr (Some out), save_progress (csv_data st') fieldnames st'))"
  using assms
  by (simp add: robust_generate_csv_def newsletters_path_of_def loop_start_def Let_def
      del: robust_rows.simps)

lemma all_ok_api_ok: "all_ok api_ok"
  by (simp add: all_ok_def api_ok_def)

text \<open>
  C10 at the checkpoint interval 0, which the prompt of the robust script
  accepts (\<^verbatim>\<open>"0".isdigit()\<close>). Every request succeeds and there are two
  campaigns. The robust script raises \<^verbatim>\<open>ZeroDivisionError\<close> in the first pass of
  its loop and leaves no output file; the basic script writes the header and
  both rows. For every other interval the two scripts agree
  (\<open>generators_agree\<close>).
\<close>

theorem zero_interval_no_output:
  "all_ok api_ok \<and>
   robust_generate_csv host0 api_ok ''nowhere'' ''out.csv'' 0 world0 None \<noteq> None \<and>
   fst (the (robust_generate_csv host0 api_ok ''nowhere'' ''out.csv'' 0 world0 None)) =
     Inl ZeroDivisionError \<and>
   disk (snd (the (robust_generate_csv host0 api_ok ''nowhere'' ''out.csv'' 0 world0 None))) = None \<and>
   basic_generate_csv host0 api_ok ''nowhere'' ''out.csv'' world0 None \<noteq> None \<and>
   fst (the (basic_generate_csv host0 api_ok ''nowhere'' ''out.csv'' world0 None)) =
     Inr (Some ''out.csv'') \<and>
   disk (snd (the (basic_generate_csv host0 api_ok ''nowhere'' ''out.csv'' world0 None))) =
     Some [header_line, hello_line, news_line]"
proof -
  let ?R = "robust_generate_csv host0 api_ok ''nowhere'' ''out.csv'' 0 world0 None"
  let ?B = "basic_generate_csv host0 api_ok ''nowhere'' ''out.csv'' world0 None"
  have run: "?R =
      (case robust_rows host0 api_ok (newsletters_path_of host0 ''nowhere'') 0 1 [hello, news]
              (loop_start world1 None) of
         (Inl e, st') \<Rightarrow> Some (Inl e, st')
       | (Inr u, st') \<Rightarrow>
           Some (Inr (Some ''out.csv''), save_progress (csv_data st') fieldnames st'))"
    by (rule robust_generate_csv_unfold [OF fetch_api_ok]) simp
  have r: "?R \<noteq> None \<and> fst (the ?R) = Inl ZeroDivisionError \<and> disk (snd (the ?R)) = None"
    unfolding run
    by (simp add: run_defs api_ok_def host0_def hello_def news_def)
  have b: "?B \<noteq> None \<and> fst (the ?B) = Inr (Some ''out.csv'') \<and>
      disk (snd (the ?B)) = Some [header_line, hello_line, news_line]"
    unfolding basic_run_api_ok
    by (simp add: run_defs api_ok_def host0_def hello_def news_def sample_report_def)
  from all_ok_api_ok r b show ?thesis by (intro conjI) (elim conjE, assumption)+
qed

end
